theory Spec2Isabelle
  imports Complex_Main
begin

section \<open>Python strings (8-bit characters)\<close>

text \<open>
  Strings are lists of 8-bit characters. The Python source works on Unicode text; the
  character classes below are the restrictions of Python's classes to the code points
  0..255 (\<open>\d\<close> and \<open>str.isdigit\<close> on 0..9, \<open>[A-Za-z]\<close>, \<open>str.isspace\<close>,
  \<open>str.upper\<close> and \<open>str.lower\<close> on the ASCII letters).
\<close>

definition is_digit :: "char \<Rightarrow> bool" where
  "is_digit c = (let n = (of_char c :: nat) in 48 \<le> n \<and> n \<le> 57)"

definition is_upper :: "char \<Rightarrow> bool" where
  "is_upper c = (let n = (of_char c :: nat) in 65 \<le> n \<and> n \<le> 90)"

definition is_lower :: "char \<Rightarrow> bool" where
  "is_lower c = (let n = (of_char c :: nat) in 97 \<le> n \<and> n \<le> 122)"

definition is_alpha :: "char \<Rightarrow> bool" where
  "is_alpha c = (is_upper c \<or> is_lower c)"

definition py_isspace :: "char \<Rightarrow> bool" where
  "py_isspace c = (let n = (of_char c :: nat) in
     (9 \<le> n \<and> n \<le> 13) \<or> (28 \<le> n \<and> n \<le> 32) \<or> n = 133 \<or> n = 160)"

definition py_upper_char :: "char \<Rightarrow> char" where
  "py_upper_char c = (if is_lower c then char_of ((of_char c :: nat) - 32) else c)"

definition py_lower_char :: "char \<Rightarrow> char" where
  "py_lower_char c = (if is_upper c then char_of ((of_char c :: nat) + 32) else c)"

definition py_upper :: "string \<Rightarrow> string" where
  "py_upper s = map py_upper_char s"

definition py_lower :: "string \<Rightarrow> string" where
  "py_lower s = map py_lower_char s"

definition py_strip :: "string \<Rightarrow> string" where
  "py_strip s = rev (dropWhile py_isspace (rev (dropWhile py_isspace s)))"

fun starts_with :: "string \<Rightarrow> string \<Rightarrow> bool" where
  "starts_with [] s = True"
| "starts_with (p # ps) [] = False"
| "starts_with (p # ps) (c # cs) = (p = c \<and> starts_with ps cs)"

text \<open>\<open>needle in haystack\<close> on strings.\<close>

fun py_in :: "string \<Rightarrow> string \<Rightarrow> bool" where
  "py_in needle [] = (needle = [])"
| "py_in needle (c # cs) = (starts_with needle (c # cs) \<or> py_in needle cs)"

definition digit_val :: "char \<Rightarrow> nat" where
  "digit_val c = (of_char c :: nat) - 48"

text \<open>\<open>int(s)\<close> on a string of decimal digits.\<close>

definition int_of_digits :: "string \<Rightarrow> nat" where
  "int_of_digits s = foldl (\<lambda>acc c. 10 * acc + digit_val c) 0 s"

definition digit_char :: "nat \<Rightarrow> char" where
  "digit_char n = char_of (48 + n)"

definition pad2 :: "nat \<Rightarrow> string" where
  "pad2 n = [digit_char (n div 10 mod 10), digit_char (n mod 10)]"

definition pad4 :: "nat \<Rightarrow> string" where
  "pad4 n = [digit_char (n div 1000 mod 10), digit_char (n div 100 mod 10),
             digit_char (n div 10 mod 10), digit_char (n mod 10)]"

section \<open>Calendar dates and the two \<open>strptime\<close> formats\<close>

record date =
  year :: nat
  month :: nat
  day :: nat

definition is_leap :: "nat \<Rightarrow> bool" where
  "is_leap y = (y mod 4 = 0 \<and> (y mod 100 \<noteq> 0 \<or> y mod 400 = 0))"

definition days_in_month :: "nat \<Rightarrow> nat \<Rightarrow> nat" where
  "days_in_month y m =
     (if m = 2 then (if is_leap y then 29 else 28)
      else if m = 4 \<or> m = 6 \<or> m = 9 \<or> m = 11 then 30 else 31)"

text \<open>
  The constructor \<open>datetime(year, month, day)\<close>: \<open>ValueError\<close> (here \<open>None\<close>) unless
  \<open>1 \<le> year \<le> 9999\<close>, \<open>1 \<le> month \<le> 12\<close> and the day exists in that month.
\<close>

definition valid_date :: "nat \<Rightarrow> nat \<Rightarrow> nat \<Rightarrow> bool" where
  "valid_date y m d =
     (1 \<le> y \<and> y \<le> 9999 \<and> 1 \<le> m \<and> m \<le> 12 \<and> 1 \<le> d \<and> d \<le> days_in_month y m)"

definition make_date :: "nat \<Rightarrow> nat \<Rightarrow> nat \<Rightarrow> date option" where
  "make_date y m d =
     (if valid_date y m d then Some \<lparr>year = y, month = m, day = d\<rparr> else None)"

text \<open>
  \<open>datetime.strptime\<close> compiles its format into a regular expression, takes the first
  match in the order of the alternatives (with backtracking), and raises \<open>ValueError\<close>
  when there is no match or when the match leaves text unconverted. Each directive is
  modelled by the list of its possible matches at the head of the text, in the order the
  regular expression tries them: the matched text and the remaining text.

  \<open>%d\<close> is \<open>(3[0-1]|[1-2]\d|0[1-9]|[1-9]| [1-9])\<close>, \<open>%m\<close> is \<open>(1[0-2]|0[1-9]|[1-9])\<close>,
  \<open>%Y\<close> is \<open>(\d\d\d\d)\<close>.
\<close>

definition in_range :: "char \<Rightarrow> char \<Rightarrow> char \<Rightarrow> bool" where
  "in_range lo hi c = ((of_char lo :: nat) \<le> of_char c \<and> (of_char c :: nat) \<le> of_char hi)"

fun two_chars :: "(char \<Rightarrow> bool) \<Rightarrow> (char \<Rightarrow> bool) \<Rightarrow> string \<Rightarrow> (string \<times> string) list" where
  "two_chars p q (a # b # rest) = (if p a \<and> q b then [([a, b], rest)] else [])"
| "two_chars p q s = []"

fun one_char :: "(char \<Rightarrow> bool) \<Rightarrow> string \<Rightarrow> (string \<times> string) list" where
  "one_char p (a # rest) = (if p a then [([a], rest)] else [])"
| "one_char p [] = []"

definition re_d :: "string \<Rightarrow> (string \<times> string) list" where
  "re_d s =
     two_chars (\<lambda>c. c = CHR ''3'') (in_range CHR ''0'' CHR ''1'') s
     @ two_chars (in_range CHR ''1'' CHR ''2'') is_digit s
     @ two_chars (\<lambda>c. c = CHR ''0'') (in_range CHR ''1'' CHR ''9'') s
     @ one_char (in_range CHR ''1'' CHR ''9'') s
     @ two_chars (\<lambda>c. c = CHR '' '') (in_range CHR ''1'' CHR ''9'') s"

definition re_m :: "string \<Rightarrow> (string \<times> string) list" where
  "re_m s =
     two_chars (\<lambda>c. c = CHR ''1'') (in_range CHR ''0'' CHR ''2'') s
     @ two_chars (\<lambda>c. c = CHR ''0'') (in_range CHR ''1'' CHR ''9'') s
     @ one_char (in_range CHR ''1'' CHR ''9'') s"

fun re_Y :: "string \<Rightarrow> (string \<times> string) list" where
  "re_Y (a # b # c # d # rest) =
     (if is_digit a \<and> is_digit b \<and> is_digit c \<and> is_digit d then [([a, b, c, d], rest)] else [])"
| "re_Y s = []"

fun re_lit :: "char \<Rightarrow> string \<Rightarrow> string list" where
  "re_lit x (a # rest) = (if a = x then [rest] else [])"
| "re_lit x [] = []"

text \<open>The matches of \<open>%d/%m/%Y\<close> at the head of the text: day, month, year, rest.\<close>

definition re_dmy :: "string \<Rightarrow> (string \<times> string \<times> string \<times> string) list" where
  "re_dmy s =
     concat (map (\<lambda>(d, r1).
       concat (map (\<lambda>r2.
         concat (map (\<lambda>(m, r3).
           concat (map (\<lambda>r4.
             map (\<lambda>(y, r5). (d, m, y, r5)) (re_Y r4))
           (re_lit CHR ''/'' r3)))
         (re_m r2)))
       (re_lit CHR ''/'' r1)))
     (re_d s))"

text \<open>The matches of \<open>%Y-%m-%d\<close> at the head of the text: year, month, day, rest.\<close>

definition re_ymd :: "string \<Rightarrow> (string \<times> string \<times> string \<times> string) list" where
  "re_ymd s =
     concat (map (\<lambda>(y, r1).
       concat (map (\<lambda>r2.
         concat (map (\<lambda>(m, r3).
           concat (map (\<lambda>r4.
             map (\<lambda>(d, r5). (y, m, d, r5)) (re_d r4))
           (re_lit CHR ''-'' r3)))
         (re_m r2)))
       (re_lit CHR ''-'' r1)))
     (re_Y s))"

text \<open>\<open>int\<close> of a matched group; the day group may carry a leading blank.\<close>

definition group_int :: "string \<Rightarrow> nat" where
  "group_int g = int_of_digits (filter is_digit g)"

definition strptime_dmy :: "string \<Rightarrow> date option" where
  "strptime_dmy s =
     (case re_dmy s of
        [] \<Rightarrow> None
      | (d, m, y, rest) # _ \<Rightarrow>
          if rest \<noteq> [] then None else make_date (group_int y) (group_int m) (group_int d))"

definition strptime_ymd :: "string \<Rightarrow> date option" where
  "strptime_ymd s =
     (case re_ymd s of
        [] \<Rightarrow> None
      | (y, m, d, rest) # _ \<Rightarrow>
          if rest \<noteq> [] then None else make_date (group_int y) (group_int m) (group_int d))"

text \<open>A natural number in decimal, without leading zeros.\<close>

fun py_decimal :: "nat \<Rightarrow> string" where
  "py_decimal n =
     (if n < 10 then [digit_char n] else py_decimal (n div 10) @ [digit_char (n mod 10)])"

text \<open>
  \<open>dt.strftime("%Y-%m-%d")\<close>, as the C library of Linux formats it: month and day
  zero-filled to two digits, the year in decimal without zero-filling, so that a year
  below 1000 has fewer than four digits.
\<close>

definition strftime_ymd :: "date \<Rightarrow> string" where
  "strftime_ymd dt = py_decimal (year dt) @ ''-'' @ pad2 (month dt) @ ''-'' @ pad2 (day dt)"

section \<open>The date normalizer\<close>

text \<open>\<open>month_map.get(key)\<close>; the lower-case keys of the table are listed as in the source.\<close>

definition month_map :: "(string \<times> string) list" where
  "month_map =
     [(''ENE'', ''01''), (''FEB'', ''02''), (''MAR'', ''03''), (''ABR'', ''04''),
      (''MAY'', ''05''), (''JUN'', ''06''), (''JUL'', ''07''), (''AGO'', ''08''),
      (''SEP'', ''09''), (''OCT'', ''10''), (''NOV'', ''11''), (''DIC'', ''12''),
      (''ene'', ''01''), (''feb'', ''02''), (''mar'', ''03''), (''abr'', ''04''),
      (''may'', ''05''), (''jun'', ''06''), (''jul'', ''07''), (''ago'', ''08''),
      (''sep'', ''09''), (''oct'', ''10''), (''nov'', ''11''), (''dic'', ''12'')]"

text \<open>\<open>re.match(r"(\d{2})-([A-Za-z]{3})-(\d{4})", s)\<close>: the three groups, matched at the
  head of the text; what follows the year is not looked at.\<close>

fun match_dd_mmm_yyyy :: "string \<Rightarrow> (string \<times> string \<times> string) option" where
  "match_dd_mmm_yyyy (d1 # d2 # h1 # a # b # c # h2 # y1 # y2 # y3 # y4 # rest) =
     (if is_digit d1 \<and> is_digit d2 \<and> h1 = CHR ''-'' \<and> is_alpha a \<and> is_alpha b \<and> is_alpha c
         \<and> h2 = CHR ''-'' \<and> is_digit y1 \<and> is_digit y2 \<and> is_digit y3 \<and> is_digit y4
      then Some ([d1, d2], [a, b, c], [y1, y2, y3, y4]) else None)"
| "match_dd_mmm_yyyy s = None"

definition convert_date_format :: "string \<Rightarrow> string option" where
  "convert_date_format date_str =
     (if date_str = [] then None
      else case strptime_dmy (py_strip date_str) of
        Some dt \<Rightarrow> Some (strftime_ymd dt)
      | None \<Rightarrow>
          (case match_dd_mmm_yyyy (py_strip date_str) of
             Some (dd, month_abbr, yyyy) \<Rightarrow>
               (case map_of month_map (py_upper month_abbr) of
                  Some mm \<Rightarrow> if mm \<noteq> [] then Some (yyyy @ ''-'' @ mm @ ''-'' @ dd) else None
                | None \<Rightarrow> None)
           | None \<Rightarrow> None))"

section \<open>The date fields of the extractor\<close>

text \<open>
  What \<open>scrape_norma_by_id\<close> reads from the parsed page for the two date fields: the
  stripped text of the first \<open>span\<close> of class \<open>vr_azul11\<close>, the first \<open>h1\<close>, the
  \<open>p\<close> that follows it with its text and the stripped text of its first link whose
  \<open>href\<close> contains \<open>page_id=216\<close>. A field is \<open>None\<close> when the page has no such
  element. No other step of the function writes the two date keys.
\<close>

record boletin_paragraph =
  boletin_text :: string
  fecha_link :: "string option"

record norma_page =
  fecha_tag :: "string option"
  h1_tag :: "string option"
  p_boletin :: "boletin_paragraph option"

text \<open>\<open>if fecha_converted:\<close> holds for a string that is neither \<open>None\<close> nor empty.\<close>

definition truthy :: "string option \<Rightarrow> bool" where
  "truthy v = (case v of None \<Rightarrow> False | Some s \<Rightarrow> s \<noteq> [])"

definition data_fecha_sancion :: "norma_page \<Rightarrow> string" where
  "data_fecha_sancion pg =
     (case fecha_tag pg of
        None \<Rightarrow> []
      | Some fecha_text \<Rightarrow>
          (let fecha_converted = convert_date_format fecha_text
           in if truthy fecha_converted then the fecha_converted else fecha_text))"

text \<open>\<open>re.search(r"(\d{2}-[A-Z]{3}-\d{4})", boletin_text)\<close>: the leftmost match.\<close>

fun match_fecha :: "string \<Rightarrow> string option" where
  "match_fecha (d1 # d2 # h1 # a # b # c # h2 # y1 # y2 # y3 # y4 # rest) =
     (if is_digit d1 \<and> is_digit d2 \<and> h1 = CHR ''-'' \<and> is_upper a \<and> is_upper b \<and> is_upper c
         \<and> h2 = CHR ''-'' \<and> is_digit y1 \<and> is_digit y2 \<and> is_digit y3 \<and> is_digit y4
      then Some [d1, d2, h1, a, b, c, h2, y1, y2, y3, y4] else None)"
| "match_fecha s = None"

fun search_fecha :: "string \<Rightarrow> string option" where
  "search_fecha [] = None"
| "search_fecha (c # cs) =
     (case match_fecha (c # cs) of Some g \<Rightarrow> Some g | None \<Rightarrow> search_fecha cs)"

definition data_fecha_boletin :: "norma_page \<Rightarrow> string" where
  "data_fecha_boletin pg =
     (case h1_tag pg of
        None \<Rightarrow> []
      | Some h1 \<Rightarrow>
          (case p_boletin pg of
             None \<Rightarrow> []
           | Some p \<Rightarrow>
               (let from_link =
                      (case fecha_link p of
                         None \<Rightarrow> []
                       | Some fecha_text \<Rightarrow>
                           (let fecha_converted = convert_date_format fecha_text
                            in if truthy fecha_converted then the fecha_converted else []))
                in if from_link = []
                   then (case search_fecha (boletin_text p) of
                           None \<Rightarrow> from_link
                         | Some g \<Rightarrow>
                             (let fecha_converted = convert_date_format g
                              in if truthy fecha_converted then the fecha_converted
                                 else from_link))
                   else from_link)))"

section \<open>The bulletin search client\<close>

datatype exn =
    ValueError
  | LookupError
  | HTTPStatusError nat
  | RequestError
  | NotFound
  | NoDataError
  | SchemaError
  | ComputeError
  | JobError
  | OtherException

record form_data =
  buscarPorNro :: string
  diaPub :: nat
  mesPub :: nat
  anioPub :: nat

record response =
  status_code :: nat
  resp_text :: string

text \<open>An HTTP call either raises \<open>httpx.RequestError\<close> or returns a response.\<close>

datatype http_outcome = RequestFailed | Responded response

text \<open>\<open>response.raise_for_status()\<close> raises unless the status is 2xx.\<close>

definition is_success :: "nat \<Rightarrow> bool" where
  "is_success st = (200 \<le> st \<and> st \<le> 299)"

text \<open>\<open>\?id=\d+\<close> at the head of the text.\<close>

definition id_here :: "string \<Rightarrow> bool" where
  "id_here s = (starts_with ''?id='' s \<and> (case drop 4 s of [] \<Rightarrow> False | c # _ \<Rightarrow> is_digit c))"

text \<open>\<open>.*\?id=\d+\<close> at the head of the text; the dot does not match a newline.\<close>

fun dotstar_id :: "string \<Rightarrow> bool" where
  "dotstar_id [] = False"
| "dotstar_id (c # cs) = (id_here (c # cs) \<or> (c \<noteq> CHR 0x0A \<and> dotstar_id cs))"

text \<open>\<open>re.compile(r"verNorma\.do.*\?id=\d+").search(href)\<close>.\<close>

fun re_verNorma :: "string \<Rightarrow> bool" where
  "re_verNorma [] = False"
| "re_verNorma (c # cs) =
     ((starts_with ''verNorma.do'' (c # cs) \<and> dotstar_id (drop 11 (c # cs))) \<or> re_verNorma cs)"

text \<open>\<open>re.search(r"\?id=(\d+)", href)\<close>: group 1 of the leftmost match.\<close>

fun search_id :: "string \<Rightarrow> string option" where
  "search_id [] = None"
| "search_id (c # cs) =
     (if id_here (c # cs) then Some (takeWhile is_digit (drop 4 (c # cs))) else search_id cs)"

fun collect_ids :: "string list \<Rightarrow> int list \<Rightarrow> int list" where
  "collect_ids [] norma_ids = norma_ids"
| "collect_ids (href # links) norma_ids =
     (case search_id href of
        None \<Rightarrow> collect_ids links norma_ids
      | Some g \<Rightarrow>
          (let norma_id = int (int_of_digits g)
           in if norma_id \<in> set norma_ids then collect_ids links norma_ids
              else collect_ids links (norma_ids @ [norma_id])))"

text \<open>
  The body of the \<open>try\<close> block. \<open>a_hrefs\<close> stands for the HTML parser: the \<open>href\<close>
  values of the \<open>a\<close> elements of the markup, in document order.
\<close>

definition search_try :: "(string \<Rightarrow> string list) \<Rightarrow> http_outcome \<Rightarrow> exn + int list" where
  "search_try a_hrefs out =
     (case out of
        RequestFailed \<Rightarrow> Inl RequestError
      | Responded r \<Rightarrow>
          if \<not> is_success (status_code r) then Inl (HTTPStatusError (status_code r))
          else
            (let norma_ids = collect_ids (filter re_verNorma (a_hrefs (resp_text r))) []
             in if length norma_ids = 0
                then (if py_in ''no se encontraron'' (py_lower (resp_text r))
                         \<or> py_in ''sin resultados'' (py_lower (resp_text r))
                      then Inr norma_ids
                      else Inl LookupError)
                else Inr norma_ids))"

text \<open>The three \<open>except\<close> clauses, in the order of the source.\<close>

fun search_except :: "exn \<Rightarrow> int list" where
  "search_except (HTTPStatusError st) = []"
| "search_except RequestError = []"
| "search_except e = []"

text \<open>
  \<open>search_boletines\<close> returns its outcome and the POST requests it issued. The date is
  parsed before the \<open>try\<close> block, so its \<open>ValueError\<close> is not handled.
\<close>

definition search_boletines ::
  "(string \<Rightarrow> string list) \<Rightarrow> (form_data \<Rightarrow> http_outcome) \<Rightarrow> string
     \<Rightarrow> (exn + int list) \<times> form_data list" where
  "search_boletines a_hrefs post boletin_fecha =
     (case strptime_ymd boletin_fecha of
        None \<Rightarrow> (Inl ValueError, [])
      | Some fecha \<Rightarrow>
          (let form =
                 \<lparr>buscarPorNro = ''false'', diaPub = day fecha, mesPub = month fecha,
                  anioPub = year fecha\<rparr>
           in (case search_try a_hrefs (post form) of
                 Inl e \<Rightarrow> Inr (search_except e)
               | Inr norma_ids \<Rightarrow> Inr norma_ids,
               [form])))"

section \<open>The batched fetcher\<close>

text \<open>
  \<open>scrape_norma_by_id\<close>: the GET either fails or responds; \<open>extract\<close> stands for the
  field extraction from the markup, which may raise. The three \<open>except\<close> clauses turn
  every exception into \<open>None\<close>.
\<close>

fun scrape_except :: "exn \<Rightarrow> 'r option" where
  "scrape_except (HTTPStatusError st) = None"
| "scrape_except RequestError = None"
| "scrape_except e = None"

definition scrape_norma_by_id ::
  "(int \<Rightarrow> string \<Rightarrow> exn + 'r) \<Rightarrow> (int \<Rightarrow> http_outcome) \<Rightarrow> int \<Rightarrow> 'r option" where
  "scrape_norma_by_id extract get norma_id =
     (case (case get norma_id of
              RequestFailed \<Rightarrow> Inl RequestError
            | Responded r \<Rightarrow>
                if status_code r = 404 then Inr None
                else if \<not> is_success (status_code r) then Inl (HTTPStatusError (status_code r))
                else (case extract norma_id (resp_text r) of
                        Inl e \<Rightarrow> Inl e
                      | Inr data \<Rightarrow> Inr (Some data))) of
        Inl e \<Rightarrow> scrape_except e
      | Inr res \<Rightarrow> res)"

text \<open>
  One entry of the list that \<open>asyncio.gather(*tasks, return_exceptions=True)\<close> returns:
  the record, \<open>None\<close>, or the exception the task raised.
\<close>

datatype 'r task_result = TaskDict 'r | TaskNone | TaskException exn

fun dicts :: "'r task_result list \<Rightarrow> 'r list" where
  "dicts [] = []"
| "dicts (TaskDict r # rs) = r # dicts rs"
| "dicts (x # rs) = dicts rs"

datatype 'r event =
    WriteHeader
  | Post form_data
  | Gather "int list"
  | WriteRow 'r
  | Flush
  | Sleep real
  | CloseFile
  | UploadFile string string

text \<open>
  The \<open>for i, norma_id in enumerate(all_norma_ids)\<close> loop: \<open>n\<close> is
  \<open>len(all_norma_ids)\<close>, \<open>tasks\<close> the identifiers of the pending coroutines.
\<close>

fun batch_loop ::
  "(int \<Rightarrow> 'r task_result) \<Rightarrow> int \<Rightarrow> real \<Rightarrow> nat \<Rightarrow> nat \<Rightarrow> int list \<Rightarrow> int list \<Rightarrow> nat
     \<Rightarrow> 'r event list \<Rightarrow> int list \<times> nat \<times> 'r event list" where
  "batch_loop fetch bs delay n i [] tasks total_scraped tr = (tasks, total_scraped, tr)"
| "batch_loop fetch bs delay n i (norma_id # rest) tasks total_scraped tr =
     (let tasks1 = tasks @ [norma_id]
      in if int (length tasks1) \<ge> bs
         then (let results = map fetch tasks1;
                   rows = dicts results;
                   tr1 = tr @ [Gather tasks1] @ map WriteRow rows @ [Flush];
                   tr2 = (if int i < int n - 1 then tr1 @ [Sleep delay] else tr1)
               in batch_loop fetch bs delay n (i + 1) rest [] (total_scraped + length rows) tr2)
         else batch_loop fetch bs delay n (i + 1) rest tasks1 total_scraped tr)"

text \<open>The loop followed by \<open>if tasks:\<close>, the processing of the remaining tasks.\<close>

definition run_batches ::
  "(int \<Rightarrow> 'r task_result) \<Rightarrow> int \<Rightarrow> real \<Rightarrow> int list \<Rightarrow> nat \<times> 'r event list" where
  "run_batches fetch bs delay all_norma_ids =
     (case batch_loop fetch bs delay (length all_norma_ids) 0 all_norma_ids [] 0 [] of
        (tasks, total_scraped, tr) \<Rightarrow>
          if tasks \<noteq> []
          then (let rows = dicts (map fetch tasks)
                in (total_scraped + length rows, tr @ [Gather tasks] @ map WriteRow rows))
          else (total_scraped, tr))"

record config =
  daily_scrape_count :: int
  batch_size :: int
  delay_bw_batches :: real

text \<open>The slice \<open>xs[:c]\<close>.\<close>

definition py_slice_to :: "'a list \<Rightarrow> int \<Rightarrow> 'a list" where
  "py_slice_to xs c = (if 0 \<le> c then take (nat c) xs else take (nat (int (length xs) + c)) xs)"

definition task_of :: "'r option \<Rightarrow> 'r task_result" where
  "task_of v = (case v of Some data \<Rightarrow> TaskDict data | None \<Rightarrow> TaskNone)"

text \<open>
  \<open>scrape_by_date\<close> returns the count (or the exception that escapes) and the trace of
  what it did to the output file and the network.
\<close>

definition scrape_by_date ::
  "config \<Rightarrow> (string \<Rightarrow> string list) \<Rightarrow> (form_data \<Rightarrow> http_outcome)
     \<Rightarrow> (int \<Rightarrow> string \<Rightarrow> exn + 'r) \<Rightarrow> (int \<Rightarrow> http_outcome)
     \<Rightarrow> string \<Rightarrow> int option \<Rightarrow> real option \<Rightarrow> (exn + nat) \<times> 'r event list" where
  "scrape_by_date cfg a_hrefs post extract get date batch_size_arg delay_between_batches =
     (let the_batch_size = (case batch_size_arg of Some b \<Rightarrow> b | None \<Rightarrow> batch_size cfg);
          the_delay = (case delay_between_batches of Some d \<Rightarrow> d | None \<Rightarrow> delay_bw_batches cfg)
      in case search_boletines a_hrefs post date of
           (Inl e, posts) \<Rightarrow> (Inl e, [WriteHeader] @ map Post posts @ [CloseFile])
         | (Inr norma_ids, posts) \<Rightarrow>
             (let all_norma_ids = py_slice_to norma_ids (daily_scrape_count cfg)
              in case run_batches (\<lambda>norma_id. task_of (scrape_norma_by_id extract get norma_id))
                        the_batch_size the_delay all_norma_ids of
                   (total_scraped, tr) \<Rightarrow>
                     (Inr total_scraped, [WriteHeader] @ map Post posts @ tr @ [CloseFile])))"

section \<open>The asset that scrapes and archives one partition\<close>

record scrape_metadata =
  partition_row_count :: nat
  uri :: string

text \<open>
  \<open>upload\<close> stands for \<open>gcs.upload_file\<close>: it raises or returns the path and the size.
  The file size in the metadata, a rounded float, is left out.
\<close>

definition scrape_boletin_and_archive ::
  "config \<Rightarrow> (string \<Rightarrow> string list) \<Rightarrow> (form_data \<Rightarrow> http_outcome)
     \<Rightarrow> (int \<Rightarrow> string \<Rightarrow> exn + 'r) \<Rightarrow> (int \<Rightarrow> http_outcome)
     \<Rightarrow> (string \<Rightarrow> string \<Rightarrow> exn + string \<times> nat)
     \<Rightarrow> string \<Rightarrow> (exn + scrape_metadata) \<times> 'r event list" where
  "scrape_boletin_and_archive cfg a_hrefs post extract get upload date =
     (let output_file = ''/tmp/normas_'' @ date @ ''.csv''
      in case scrape_by_date cfg a_hrefs post extract get date None None of
           (Inl e, tr) \<Rightarrow> (Inl e, tr)
         | (Inr scraped_count, tr) \<Rightarrow>
             if scraped_count = 0 then (Inl LookupError, tr)
             else
               (let blob_name = ''daily_scrapes/normas_'' @ date @ ''.csv''
                in case upload output_file blob_name of
                     Inl e \<Rightarrow> (Inl e, tr @ [UploadFile output_file blob_name])
                   | Inr (gcs_path, blob_size) \<Rightarrow>
                       (Inr \<lparr>partition_row_count = scraped_count, uri = gcs_path\<rparr>,
                        tr @ [UploadFile output_file blob_name])))"

text \<open>
  The groups of the specification: consecutive groups of \<open>w\<close> identifiers, the last one
  shorter when \<open>w\<close> does not divide the length.
\<close>

fun groups_of :: "nat \<Rightarrow> 'a list \<Rightarrow> 'a list list" where
  "groups_of w xs = (if w = 0 \<or> xs = [] then [] else take w xs # groups_of w (drop w xs))"

text \<open>
  The trace of the specification: each group is awaited as a whole, its records are
  written, a full group is flushed, and a sleep follows unless the group is the last.
\<close>

fun groups_trace :: "(int \<Rightarrow> 'r task_result) \<Rightarrow> nat \<Rightarrow> real \<Rightarrow> int list list \<Rightarrow> 'r event list" where
  "groups_trace fetch w delay [] = []"
| "groups_trace fetch w delay (g # gs) =
     [Gather g] @ map WriteRow (dicts (map fetch g))
     @ (if length g = w then [Flush] else [])
     @ (if gs \<noteq> [] then [Sleep delay] else [])
     @ groups_trace fetch w delay gs"

fun written_rows :: "'r event list \<Rightarrow> 'r list" where
  "written_rows [] = []"
| "written_rows (WriteRow r # es) = r # written_rows es"
| "written_rows (e # es) = written_rows es"

section \<open>The merge pipeline\<close>

text \<open>
  \<open>open(output_file, "r")\<close> reads in text mode: the line endings CR LF and CR of the
  file become LF.
\<close>

fun universal_newlines :: "string \<Rightarrow> string" where
  "universal_newlines [] = []"
| "universal_newlines [c] = (if c = CHR 0x0D then [CHR 0x0A] else [c])"
| "universal_newlines (c # d # cs) =
     (if c = CHR 0x0D
      then (if d = CHR 0x0A then CHR 0x0A # universal_newlines cs
            else CHR 0x0A # universal_newlines (d # cs))
      else c # universal_newlines (d # cs))"

text \<open>\<open>f.readlines()\<close>: the lines of the translated text, each with its newline.\<close>

fun py_readlines :: "string \<Rightarrow> string list" where
  "py_readlines [] = []"
| "py_readlines (c # cs) =
     (if c = CHR 0x0A then [c] # py_readlines cs
      else (case py_readlines cs of [] \<Rightarrow> [[c]] | l # ls \<Rightarrow> (c # l) # ls))"

text \<open>
  \<open>master_daily_merge\<close>: the content of the day's file, the local master file (\<open>None\<close>
  when the path does not exist) and the archived master (\<open>None\<close> when the download
  fails). It returns the new content of the master file and the number it reports. The
  append writes LF as it is, as on a POSIX system.
\<close>

definition master_daily_merge ::
  "string \<Rightarrow> string option \<Rightarrow> string option \<Rightarrow> exn + string \<times> int" where
  "master_daily_merge output_text local_master archived_master =
     (let lines = py_readlines (universal_newlines output_text);
          total_rows = int (length lines) - 1;
          new_data = [CHR 0x0A] @ concat (tl lines)
      in case (case local_master of
                 Some m \<Rightarrow> Inr m
               | None \<Rightarrow> (case archived_master of Some m \<Rightarrow> Inr m | None \<Rightarrow> Inl NotFound)) of
           Inl e \<Rightarrow> Inl e
         | Inr m \<Rightarrow> Inr (m @ new_data, total_rows))"

text \<open>One row of the master table, with the columns of \<open>boletin_schema\<close>.\<close>

record master_row =
  id_norma :: "int option"
  tipo_norma :: "string option"
  numero_norma :: "string option"
  clase_norma :: "string option"
  organismo_origen :: "string option"
  fecha_sancion :: "date option"
  numero_boletin :: "string option"
  fecha_boletin :: "date option"
  pagina_boletin :: "int option"
  titulo_resumido :: "string option"
  titulo_sumario :: "string option"
  texto_resumido :: "string option"
  observaciones :: "string option"
  texto_original :: "string option"
  texto_actualizado :: "string option"
  modificada_por :: "int option"
  modifica_a :: "int option"

text \<open>
  The CSV reader of the data-frame library, as far as the pipeline depends on it. The
  text is cut at each LF into lines, the last line needing no LF. The first line is the
  header, which the library checks against the schema (\<open>header_ok\<close> stands for that
  check). Every other line is a record: a blank line is a row with every column null,
  and any other record is parsed into a row by \<open>parse_row\<close>, which stands for the
  library's field parser (schema and null values included) and fails on a record it
  cannot parse. Quoted fields that contain a newline are not modelled.
\<close>

fun split_lines :: "string \<Rightarrow> string list" where
  "split_lines [] = [[]]"
| "split_lines (c # cs) =
     (if c = CHR 0x0A then [] # split_lines cs
      else (case split_lines cs of [] \<Rightarrow> [[c]] | l # ls \<Rightarrow> (c # l) # ls))"

definition csv_lines :: "string \<Rightarrow> string list" where
  "csv_lines txt =
     (let pieces = split_lines txt in if last pieces = [] then butlast pieces else pieces)"

definition null_row :: master_row where
  "null_row =
     \<lparr>id_norma = None, tipo_norma = None, numero_norma = None, clase_norma = None,
      organismo_origen = None, fecha_sancion = None, numero_boletin = None,
      fecha_boletin = None, pagina_boletin = None, titulo_resumido = None,
      titulo_sumario = None, texto_resumido = None, observaciones = None,
      texto_original = None, texto_actualizado = None, modificada_por = None,
      modifica_a = None\<rparr>"

definition parse_record :: "(string \<Rightarrow> master_row option) \<Rightarrow> string \<Rightarrow> master_row option" where
  "parse_record parse_row l = (if l = [] then Some null_row else parse_row l)"

fun parse_rows :: "(string \<Rightarrow> 'row option) \<Rightarrow> string list \<Rightarrow> 'row list option" where
  "parse_rows parse_row [] = Some []"
| "parse_rows parse_row (l # ls) =
     (case parse_row l of
        None \<Rightarrow> None
      | Some r \<Rightarrow> (case parse_rows parse_row ls of None \<Rightarrow> None | Some rs \<Rightarrow> Some (r # rs)))"

definition scan_csv ::
  "(string \<Rightarrow> bool) \<Rightarrow> (string \<Rightarrow> master_row option) \<Rightarrow> string \<Rightarrow> exn + master_row list" where
  "scan_csv header_ok parse_row txt =
     (case csv_lines txt of
        [] \<Rightarrow> Inl NoDataError
      | header # records \<Rightarrow>
          if \<not> header_ok header then Inl SchemaError
          else (case parse_rows (parse_record parse_row) records of
                  None \<Rightarrow> Inl ComputeError
                | Some rows \<Rightarrow> Inr rows))"

text \<open>
  \<open>.unique(subset=["id_norma"], keep="last")\<close>: a row stays when no later row has its
  \<open>id_norma\<close>; null identifiers count as equal. The library leaves the order of the
  result open; the model keeps the order of the file.
\<close>

fun unique_keep_last :: "master_row list \<Rightarrow> master_row list" where
  "unique_keep_last [] = []"
| "unique_keep_last (r # rs) =
     (if id_norma r \<in> set (map id_norma rs) then unique_keep_last rs
      else r # unique_keep_last rs)"

text \<open>The data frame \<open>df\<close> of \<open>master_to_bigquery\<close>, read from the master file.\<close>

definition master_to_bigquery ::
  "(string \<Rightarrow> bool) \<Rightarrow> (string \<Rightarrow> master_row option) \<Rightarrow> string \<Rightarrow> exn + master_row list" where
  "master_to_bigquery header_ok parse_row master_text =
     (case scan_csv header_ok parse_row master_text of
        Inl e \<Rightarrow> Inl e
      | Inr rows \<Rightarrow> Inr (unique_keep_last rows))"

section \<open>The embedding merge\<close>

text \<open>
  The warehouse holds the staging table and the embeddings table. \<open>merge_job\<close> stands for
  the MERGE statement run by the warehouse: from the staging rows and the target rows it
  either fails, changing nothing, or gives the new target rows and the number of rows it
  modified. \<open>truncate_job\<close> is the failure of the TRUNCATE statement, if it fails. The
  statements submitted through \<open>client.query\<close> are recorded.
\<close>

record ('s, 't) warehouse =
  staging :: "'s list"
  master_embeddings :: "'t list"

datatype statement = MERGE | TRUNCATE

definition master_daily_embeddings_merge ::
  "('s list \<Rightarrow> 't list \<Rightarrow> exn + 't list \<times> nat) \<Rightarrow> exn option \<Rightarrow> ('s, 't) warehouse
     \<Rightarrow> (exn + nat) \<times> ('s, 't) warehouse \<times> statement list" where
  "master_daily_embeddings_merge merge_job truncate_job wh =
     (case merge_job (staging wh) (master_embeddings wh) of
        Inl e \<Rightarrow> (Inl e, wh, [MERGE])
      | Inr (target, rows_modified) \<Rightarrow>
          (let wh1 = wh\<lparr>master_embeddings := target\<rparr>
           in case truncate_job of
                Some e \<Rightarrow> (Inl e, wh1, [MERGE, TRUNCATE])
              | None \<Rightarrow> (Inr rows_modified, wh1\<lparr>staging := []\<rparr>, [MERGE, TRUNCATE])))"

section \<open>The date normalizer as specified\<close>

text \<open>
  The texts that \<open>%d\<close> matches entirely, the blank-padded day apart: one or two
  digits with a value from 1 to 31. Likewise \<open>%m\<close> and the values from 1 to 12.
\<close>

definition day_text :: "string \<Rightarrow> bool" where
  "day_text d = (d \<noteq> [] \<and> length d \<le> 2 \<and> list_all is_digit d
                 \<and> 1 \<le> int_of_digits d \<and> int_of_digits d \<le> 31)"

definition month_text :: "string \<Rightarrow> bool" where
  "month_text m = (m \<noteq> [] \<and> length m \<le> 2 \<and> list_all is_digit m
                   \<and> 1 \<le> int_of_digits m \<and> int_of_digits m \<le> 12)"

text \<open>
  The date normalizer as the amended specification describes it. A text is cut at its
  first two slashes into day, month and year.
\<close>

definition split_slash :: "string \<Rightarrow> (string \<times> string \<times> string) option" where
  "split_slash t =
     (case dropWhile (\<lambda>c. c \<noteq> CHR ''/'') t of
        [] \<Rightarrow> None
      | s1 # r \<Rightarrow>
          (case dropWhile (\<lambda>c. c \<noteq> CHR ''/'') r of
             [] \<Rightarrow> None
           | s2 # ys \<Rightarrow>
               Some (takeWhile (\<lambda>c. c \<noteq> CHR ''/'') t, takeWhile (\<lambda>c. c \<noteq> CHR ''/'') r, ys)))"

text \<open>One or two decimal digits.\<close>

definition short_digits :: "string \<Rightarrow> bool" where
  "short_digits g = (g \<noteq> [] \<and> length g \<le> 2 \<and> list_all is_digit g)"

text \<open>
  A slash date: day and month of one or two digits, a year of four digits, and a date
  that exists in the calendar.
\<close>

definition dmy_spec :: "string \<Rightarrow> date option" where
  "dmy_spec t =
     (case split_slash t of
        None \<Rightarrow> None
      | Some (ds, ms, ys) \<Rightarrow>
          if short_digits ds \<and> short_digits ms \<and> length ys = 4 \<and> list_all is_digit ys
          then make_date (int_of_digits ys) (int_of_digits ms) (int_of_digits ds)
          else None)"

text \<open>The Spanish three-letter month abbreviations and their numbers.\<close>

definition spanish_months :: "(string \<times> string) list" where
  "spanish_months =
     [(''ENE'', ''01''), (''FEB'', ''02''), (''MAR'', ''03''), (''ABR'', ''04''),
      (''MAY'', ''05''), (''JUN'', ''06''), (''JUL'', ''07''), (''AGO'', ''08''),
      (''SEP'', ''09''), (''OCT'', ''10''), (''NOV'', ''11''), (''DIC'', ''12'')]"

text \<open>
  A dash date: the text begins with two digits, a dash, three letters that are a Spanish
  month abbreviation in any letter case, a dash and four digits. The day is not checked
  and what follows the year is ignored.
\<close>

definition dash_spec :: "string \<Rightarrow> (string \<times> string \<times> string) option" where
  "dash_spec t =
     (if 11 \<le> length t \<and> list_all is_digit (take 2 t) \<and> t ! 2 = CHR ''-''
         \<and> list_all is_alpha (take 3 (drop 3 t)) \<and> t ! 6 = CHR ''-''
         \<and> list_all is_digit (take 4 (drop 7 t))
      then (case map_of spanish_months (py_upper (take 3 (drop 3 t))) of
              Some mm \<Rightarrow> Some (take 2 t, mm, take 4 (drop 7 t))
            | None \<Rightarrow> None)
      else None)"

text \<open>
  The normalizer strips the surrounding whitespace, renders a slash date as year, month
  and day (the year in decimal, month and day with two digits), otherwise a dash date
  from its own digits, and otherwise gives \<open>None\<close>.
\<close>

definition normalizer_spec :: "string \<Rightarrow> string option" where
  "normalizer_spec s =
     (let t = py_strip s
      in case dmy_spec t of
           Some dt \<Rightarrow>
             Some (py_decimal (year dt) @ ''-'' @ pad2 (month dt) @ ''-'' @ pad2 (day dt))
         | None \<Rightarrow>
             (case dash_spec t of
                Some (dd, mm, yyyy) \<Rightarrow> Some (yyyy @ ''-'' @ mm @ ''-'' @ dd)
              | None \<Rightarrow> None))"

text \<open>A well-formed \<open>YYYY-MM-DD\<close> text: digits and dashes in their places.\<close>

fun ymd_shape :: "string \<Rightarrow> bool" where
  "ymd_shape [y1, y2, y3, y4, h1, m1, m2, h2, d1, d2] =
     (is_digit y1 \<and> is_digit y2 \<and> is_digit y3 \<and> is_digit y4 \<and> h1 = CHR ''-''
      \<and> is_digit m1 \<and> is_digit m2 \<and> h2 = CHR ''-'' \<and> is_digit d1 \<and> is_digit d2)"
| "ymd_shape s = False"

section \<open>Auxiliary definitions\<close>

text \<open>The header line that \<open>writer.writeheader()\<close> writes: the seventeen field names.\<close>

definition csv_header :: string where
  "csv_header =
     ''id_norma,tipo_norma,numero_norma,clase_norma,organismo_origen,fecha_sancion,''
     @ ''numero_boletin,fecha_boletin,pagina_boletin,titulo_resumido,titulo_sumario,''
     @ ''texto_resumido,observaciones,texto_original,texto_actualizado,modificada_por,''
     @ ''modifica_a''"

text \<open>
  A header check and a field parser for examples. The header must be the seventeen field
  names. A record must have seventeen comma-separated fields, the first of them decimal
  digits; the first field is the \<open>id_norma\<close> and the tenth the \<open>titulo_resumido\<close>, an empty
  field being null, and the other columns are left null.
\<close>

definition example_header_ok :: "string \<Rightarrow> bool" where
  "example_header_ok h = (h = csv_header)"

fun split_commas :: "string \<Rightarrow> string list" where
  "split_commas [] = [[]]"
| "split_commas (c # cs) =
     (if c = CHR '','' then [] # split_commas cs
      else (case split_commas cs of [] \<Rightarrow> [[c]] | f # fs \<Rightarrow> (c # f) # fs))"

definition example_row :: "string \<Rightarrow> master_row option" where
  "example_row l =
     (let fs = split_commas l
      in if length fs \<noteq> 17 \<or> \<not> list_all is_digit (fs ! 0) then None
         else Some (null_row
                \<lparr>id_norma := (if fs ! 0 = [] then None else Some (int (int_of_digits (fs ! 0)))),
                 titulo_resumido := (if fs ! 9 = [] then None else Some (fs ! 9))\<rparr>))"

text \<open>The uploads recorded in a trace.\<close>

fun uploads :: "'r event list \<Rightarrow> (string \<times> string) list" where
  "uploads [] = []"
| "uploads (UploadFile f b # es) = (f, b) # uploads es"
| "uploads (e # es) = uploads es"

declare groups_of.simps [simp del]

declare py_decimal.simps [simp del]

section \<open>Properties of the embedding merge\<close>

text \<open>
  Claim C8. In every execution of the embedding merge step the TRUNCATE of the staging
  table is submitted only after the MERGE has succeeded: when the MERGE fails, the
  function raises that failure, MERGE is the only statement submitted and the warehouse,
  the staging table included, is as it was; and whenever TRUNCATE was submitted, the
  MERGE had returned a result and was submitted before it.
\<close>

theorem truncate_only_after_merge:
  "(\<forall>e. merge_job (staging wh) (master_embeddings wh) = Inl e \<longrightarrow>
        master_daily_embeddings_merge merge_job truncate_job wh = (Inl e, wh, [MERGE]))
   \<and> (TRUNCATE \<in> set (snd (snd (master_daily_embeddings_merge merge_job truncate_job wh))) \<longrightarrow>
        (\<exists>target n. merge_job (staging wh) (master_embeddings wh) = Inr (target, n))
        \<and> snd (snd (master_daily_embeddings_merge merge_job truncate_job wh)) = [MERGE, TRUNCATE])"
  by (auto simp: master_daily_embeddings_merge_def Let_def
           split: sum.splits option.splits prod.splits)

theorem truncate_only_after_merge_witness:
  "master_daily_embeddings_merge (\<lambda>s t. Inl JobError) None
      \<lparr>staging = [1::nat, 2], master_embeddings = [0::nat]\<rparr>
     = (Inl JobError, \<lparr>staging = [1, 2], master_embeddings = [0]\<rparr>, [MERGE])
   \<and> snd (snd (master_daily_embeddings_merge (\<lambda>s t. Inr (t @ s, length s)) None
      \<lparr>staging = [1::nat, 2], master_embeddings = [0::nat]\<rparr>)) = [MERGE, TRUNCATE]"
proof -
  let ?wh = "\<lparr>staging = [1::nat, 2], master_embeddings = [0::nat]\<rparr>"
  have f: "(\<lambda>s t. Inl JobError :: exn + nat list \<times> nat) (staging ?wh) (master_embeddings ?wh)
             = Inl JobError"
    by simp
  have t: "TRUNCATE \<in> set (snd (snd (master_daily_embeddings_merge
             (\<lambda>s t. Inr (t @ s, length s)) None ?wh)))"
    by (simp add: master_daily_embeddings_merge_def)
  have a: "master_daily_embeddings_merge (\<lambda>s t. Inl JobError) None ?wh
             = (Inl JobError, ?wh, [MERGE])"
    using truncate_only_after_merge [of "\<lambda>s t. Inl JobError" ?wh None] f by blast
  have b: "snd (snd (master_daily_embeddings_merge (\<lambda>s t. Inr (t @ s, length s)) None ?wh))
             = [MERGE, TRUNCATE]"
    using truncate_only_after_merge [of "\<lambda>s t. Inr (t @ s, length s)" ?wh None] t by blast
  from a b show ?thesis by (rule conjI)
qed

section \<open>Properties of the bulletin search client\<close>

text \<open>
  Claim C1. The claim asks that a results page with no record identifier and no
  "no results" marker makes \<open>search_boletines\<close> raise. On the page below, a 200 response
  without links and without marker, the \<open>try\<close> block does raise \<open>LookupError\<close>, but the
  last \<open>except\<close> clause catches it: the function returns the empty list, exactly what
  it returns when the request fails.
\<close>

theorem search_boletines_swallows_lookup_error:
  "search_try (\<lambda>markup. [])
       (Responded \<lparr>status_code = 200, resp_text = ''<html><body>Error</body></html>''\<rparr>)
     = Inl LookupError
   \<and> search_boletines (\<lambda>markup. [])
       (\<lambda>form. Responded \<lparr>status_code = 200, resp_text = ''<html><body>Error</body></html>''\<rparr>)
       ''2025-10-06''
     = (Inr [], [\<lparr>buscarPorNro = ''false'', diaPub = 6, mesPub = 10, anioPub = 2025\<rparr>])
   \<and> search_boletines (\<lambda>markup. []) (\<lambda>form. RequestFailed) ''2025-10-06''
     = (Inr [], [\<lparr>buscarPorNro = ''false'', diaPub = 6, mesPub = 10, anioPub = 2025\<rparr>])"
  by code_simp

text \<open>
  Claim C10. For every date string that \<open>strptime\<close> does not parse as \<open>%Y-%m-%d\<close>,
  \<open>search_boletines\<close> raises \<open>ValueError\<close> and has issued no request; for every date
  string that parses, it issues one request and returns a list, whatever happens to
  the request.
\<close>

theorem search_boletines_malformed_date:
  "(strptime_ymd boletin_fecha = None \<longrightarrow>
      search_boletines a_hrefs post boletin_fecha = (Inl ValueError, []))
   \<and> (strptime_ymd boletin_fecha \<noteq> None \<longrightarrow>
      (\<exists>norma_ids form. search_boletines a_hrefs post boletin_fecha = (Inr norma_ids, [form])))"
  by (auto simp: search_boletines_def Let_def split: option.splits sum.splits)

theorem search_boletines_malformed_date_witness:
  "search_boletines (\<lambda>markup. []) (\<lambda>form. RequestFailed) ''06/10/2025'' = (Inl ValueError, [])
   \<and> (\<exists>norma_ids form. search_boletines (\<lambda>markup. []) (\<lambda>form. RequestFailed) ''2025-10-06''
         = (Inr norma_ids, [form]))"
proof -
  have bad: "strptime_ymd ''06/10/2025'' = None" by code_simp
  have good: "strptime_ymd ''2025-10-06'' \<noteq> None" by code_simp
  note a = search_boletines_malformed_date
             [of "''06/10/2025''" "\<lambda>markup. []" "\<lambda>form. RequestFailed",
              THEN conjunct1, THEN mp, OF bad]
  note b = search_boletines_malformed_date
             [of "''2025-10-06''" "\<lambda>markup. []" "\<lambda>form. RequestFailed",
              THEN conjunct2, THEN mp, OF good]
  from a b show ?thesis by (rule conjI)
qed

section \<open>Properties of the batched fetcher\<close>

lemma written_rows_append: "written_rows (a @ b) = written_rows a @ written_rows b"
  by (induction a rule: written_rows.induct) simp_all

lemma written_rows_WriteRow: "written_rows (map WriteRow rows) = rows"
  by (induction rows) simp_all

lemma dicts_append: "dicts (a @ b) = dicts a @ dicts b"
  by (induction a rule: dicts.induct) simp_all

lemma dicts_snoc: "dicts (a @ [x]) @ dicts b = dicts a @ dicts (x # b)"
  by (cases x) (simp_all add: dicts_append)

lemma batch_loop_rows:
  "batch_loop fetch bs d n i rest tasks tot tr = (tasks', tot', tr') \<Longrightarrow>
     written_rows tr' @ dicts (map fetch tasks') = written_rows tr @ dicts (map fetch (tasks @ rest))
     \<and> tot' + length (dicts (map fetch tasks')) = tot + length (dicts (map fetch (tasks @ rest)))"
proof (induction rest arbitrary: tasks i tot tr)
  case Nil
  then show ?case by simp
next
  case (Cons x rest)
  let ?t1 = "tasks @ [x]"
  let ?rows = "dicts (map fetch ?t1)"
  have split: "dicts (map fetch ?t1) @ dicts (map fetch rest) = dicts (map fetch (tasks @ x # rest))"
    using dicts_snoc [of "map fetch tasks" "fetch x" "map fetch rest"] by (simp add: dicts_append)
  show ?case
  proof (cases "bs \<le> int (length ?t1)")
    case True
    let ?tr1 = "tr @ [Gather ?t1] @ map WriteRow ?rows @ [Flush]"
    let ?tr2 = "if int i < int n - 1 then ?tr1 @ [Sleep d] else ?tr1"
    from Cons.prems True
    have call: "batch_loop fetch bs d n (i + 1) rest [] (tot + length ?rows) ?tr2 = (tasks', tot', tr')"
      by (cases "int i < int n - 1") (simp_all add: Let_def)
    have w: "written_rows ?tr2 = written_rows tr @ ?rows"
      by (simp add: written_rows_append written_rows_WriteRow)
    from Cons.IH [OF call] w split show ?thesis
      by (metis (no_types, lifting) append_Nil append_assoc length_append add.assoc)
  next
    case False
    from Cons.prems False
    have call: "batch_loop fetch bs d n (i + 1) rest ?t1 tot tr = (tasks', tot', tr')"
      by (simp add: Let_def)
    from Cons.IH [OF call] show ?thesis by simp
  qed
qed

lemma run_batches_rows:
  "written_rows (snd (run_batches fetch bs d ids)) = dicts (map fetch ids)
   \<and> fst (run_batches fetch bs d ids) = length (dicts (map fetch ids))"
proof -
  obtain tasks' tot' tr' where
    b: "batch_loop fetch bs d (length ids) 0 ids [] 0 [] = (tasks', tot', tr')"
    by (cases "batch_loop fetch bs d (length ids) 0 ids [] (0::nat) ([] :: 'a event list)") auto
  from batch_loop_rows [OF b] show ?thesis
    by (auto simp: run_batches_def b Let_def written_rows_append written_rows_WriteRow)
qed

lemma dicts_mem: "TaskDict r \<in> set rs \<Longrightarrow> r \<in> set (dicts rs)"
  by (induction rs rule: dicts.induct) auto

text \<open>
  Claim C6. Whatever the outcomes of the fetches (a record, no record, or an exception
  returned by the gather), the rows written to the output are exactly the records of the
  successful fetches, in the order of the identifiers, and the count returned is their
  number: a fetch that fails removes only its own row. In particular every identifier
  whose fetch yields a record has that record written.
\<close>

theorem gather_isolates_failures:
  "written_rows (snd (run_batches fetch bs delay ids)) = dicts (map fetch ids)
   \<and> fst (run_batches fetch bs delay ids) = length (dicts (map fetch ids))
   \<and> (\<forall>k r. k \<in> set ids \<and> fetch k = TaskDict r \<longrightarrow>
         r \<in> set (written_rows (snd (run_batches fetch bs delay ids))))"
proof -
  note rb = run_batches_rows [of fetch bs delay ids]
  have w: "written_rows (snd (run_batches fetch bs delay ids)) = dicts (map fetch ids)"
    using rb by (rule conjunct1)
  have c: "fst (run_batches fetch bs delay ids) = length (dicts (map fetch ids))"
    using rb by (rule conjunct2)
  have m: "\<forall>k r. k \<in> set ids \<and> fetch k = TaskDict r \<longrightarrow>
             r \<in> set (written_rows (snd (run_batches fetch bs delay ids)))"
  proof (intro allI impI)
    fix k r
    assume "k \<in> set ids \<and> fetch k = TaskDict r"
    then have "TaskDict r \<in> set (map fetch ids)" by force
    then show "r \<in> set (written_rows (snd (run_batches fetch bs delay ids)))"
      unfolding w by (rule dicts_mem)
  qed
  from w c m show ?thesis by (intro conjI)
qed

lemma groups_of_Nil: "groups_of w [] = []"
  by (simp add: groups_of.simps)

lemma groups_of_step:
  "0 < w \<Longrightarrow> xs \<noteq> [] \<Longrightarrow> groups_of w xs = take w xs # groups_of w (drop w xs)"
  by (subst groups_of.simps) simp

lemma groups_of_short: "0 < w \<Longrightarrow> xs \<noteq> [] \<Longrightarrow> length xs \<le> w \<Longrightarrow> groups_of w xs = [xs]"
  by (simp add: groups_of_step groups_of_Nil)

lemma groups_of_Nil_iff: "0 < w \<Longrightarrow> groups_of w xs = [] \<longleftrightarrow> xs = []"
  by (cases "xs = []") (simp_all add: groups_of_Nil groups_of_step)

lemma groups_of_full:
  "ys \<noteq> [] \<Longrightarrow> groups_of (length ys) (ys @ rest) = ys # groups_of (length ys) rest"
  by (subst groups_of_step) simp_all

lemma batch_loop_trace:
  "0 < w \<Longrightarrow> length tasks < w \<Longrightarrow> i + length rest = n \<Longrightarrow>
   batch_loop fetch (int w) d n i rest tasks tot tr = (tasks', tot', tr') \<Longrightarrow>
   tr' @ (if tasks' \<noteq> [] then [Gather tasks'] @ map WriteRow (dicts (map fetch tasks')) else [])
     = tr @ groups_trace fetch w d (groups_of w (tasks @ rest))"
proof (induction rest arbitrary: tasks i tot tr)
  case Nil
  then show ?case
    by (cases "tasks = []") (simp_all add: groups_of_Nil groups_of_short)
next
  case (Cons x rest)
  let ?t1 = "tasks @ [x]"
  let ?rows = "dicts (map fetch ?t1)"
  have same: "tasks @ x # rest = ?t1 @ rest" by simp
  show ?case
  proof (cases "length ?t1 = w")
    case True
    let ?tr1 = "tr @ [Gather ?t1] @ map WriteRow ?rows @ [Flush]"
    let ?tr2 = "if int i < int n - 1 then ?tr1 @ [Sleep d] else ?tr1"
    from Cons.prems True
    have call: "batch_loop fetch (int w) d n (i + 1) rest [] (tot + length ?rows) ?tr2
                  = (tasks', tot', tr')"
      by (cases "int i < int n - 1") (simp_all add: Let_def)
    have n: "(i + 1) + length rest = n" using Cons.prems(3) by simp
    have e: "length ([] :: int list) < w" using Cons.prems(1) by simp
    note ih = Cons.IH [OF Cons.prems(1) e n call]
    have g: "groups_of w (?t1 @ rest) = ?t1 # groups_of w rest"
      using groups_of_full [of ?t1 rest] True by simp
    have more: "int i < int n - 1 \<longleftrightarrow> groups_of w rest \<noteq> []"
      using n Cons.prems(1) by (auto simp: groups_of_Nil_iff)
    have "tr @ groups_trace fetch w d (groups_of w (?t1 @ rest))
            = ?tr2 @ groups_trace fetch w d (groups_of w rest)"
      unfolding g using True more by simp
    with ih show ?thesis unfolding same by simp
  next
    case False
    with Cons.prems have lt: "length ?t1 < w" by simp
    from Cons.prems False
    have call: "batch_loop fetch (int w) d n (i + 1) rest ?t1 tot tr = (tasks', tot', tr')"
      by (simp add: Let_def)
    have n: "(i + 1) + length rest = n" using Cons.prems(3) by simp
    from Cons.IH [OF Cons.prems(1) lt n call] show ?thesis by simp
  qed
qed

lemma groups_of_concat: "0 < w \<Longrightarrow> concat (groups_of w xs) = xs"
proof (induction w xs rule: groups_of.induct)
  case (1 w xs)
  then show ?case
    by (cases "xs = []") (simp_all add: groups_of_Nil groups_of_step)
qed

lemma groups_of_lengths:
  "0 < w \<Longrightarrow> map length (groups_of w xs)
     = replicate (length xs div w) w @ (if length xs mod w = 0 then [] else [length xs mod w])"
proof (induction w xs rule: groups_of.induct)
  case (1 w xs)
  show ?case
  proof (cases "xs = []")
    case True
    then show ?thesis by (simp add: groups_of_Nil)
  next
    case False
    show ?thesis
    proof (cases "w \<le> length xs")
      case True
      then have d: "length xs div w = Suc ((length xs - w) div w)"
        using "1.prems" by (simp add: le_div_geq)
      have m: "length xs mod w = (length xs - w) mod w"
        using True by (simp add: le_mod_geq)
      from "1.IH" "1.prems" False True show ?thesis
        by (simp add: groups_of_step d m min_def)
    next
      case nle: False
      with False "1.prems" show ?thesis
        by (simp add: groups_of_short)
    qed
  qed
qed

text \<open>
  Claim C5. For every identifier list, every concurrency width \<open>W > 0\<close> and every delay
  \<open>D\<close>, the trace of the fetcher is the trace of the consecutive groups of \<open>W\<close>
  identifiers: each group is gathered as a whole before its records are written and
  flushed, and a sleep of \<open>D\<close> follows every group but the last. The groups make up the
  list, and their sizes are \<open>W\<close>, repeated \<open>N div W\<close> times, followed by \<open>N mod W\<close>
  when that is not zero.
\<close>

theorem fetcher_batches:
  "0 < W \<Longrightarrow>
     snd (run_batches fetch W D ids) = groups_trace fetch (nat W) D (groups_of (nat W) ids)
     \<and> concat (groups_of (nat W) ids) = ids
     \<and> map length (groups_of (nat W) ids)
         = replicate (length ids div nat W) (nat W)
           @ (if length ids mod nat W = 0 then [] else [length ids mod nat W])"
proof -
  assume W: "0 < W"
  then have w: "0 < nat W" and iw: "int (nat W) = W" by simp_all
  obtain tasks' tot' tr' where
    b: "batch_loop fetch W D (length ids) 0 ids [] 0 [] = (tasks', tot', tr')"
    by (cases "batch_loop fetch W D (length ids) 0 ids [] (0::nat) ([] :: 'a event list)") auto
  from batch_loop_trace [of "nat W" "[]" 0 ids "length ids" fetch D 0 "[]" tasks' tot' tr'] w iw b
  have "tr' @ (if tasks' \<noteq> [] then [Gather tasks'] @ map WriteRow (dicts (map fetch tasks')) else [])
          = groups_trace fetch (nat W) D (groups_of (nat W) ids)"
    by simp
  then have "snd (run_batches fetch W D ids) = groups_trace fetch (nat W) D (groups_of (nat W) ids)"
    by (simp add: run_batches_def b Let_def split: if_splits)
  from this groups_of_concat [OF w, of ids] groups_of_lengths [OF w, of ids]
  show ?thesis by (intro conjI)
qed


lemma uploads_append: "uploads (a @ b) = uploads a @ uploads b"
  by (induction a rule: uploads.induct) simp_all

lemma uploads_Post: "uploads (map Post ps) = []"
  by (induction ps) simp_all

lemma uploads_WriteRow: "uploads (map WriteRow rs) = []"
  by (induction rs) simp_all

lemma batch_loop_uploads:
  "batch_loop fetch bs d n i rest tasks tot tr = (tasks', tot', tr') \<Longrightarrow>
     uploads tr = [] \<Longrightarrow> uploads tr' = []"
proof (induction rest arbitrary: tasks i tot tr)
  case Nil
  then show ?case by simp
next
  case (Cons x rest)
  show ?case
  proof (cases "bs \<le> int (length (tasks @ [x]))")
    case True
    let ?t1 = "tasks @ [x]"
    let ?rows = "dicts (map fetch ?t1)"
    let ?tr1 = "tr @ [Gather ?t1] @ map WriteRow ?rows @ [Flush]"
    let ?tr2 = "if int i < int n - 1 then ?tr1 @ [Sleep d] else ?tr1"
    from Cons.prems True
    have call: "batch_loop fetch bs d n (i + 1) rest [] (tot + length ?rows) ?tr2 = (tasks', tot', tr')"
      by (cases "int i < int n - 1") (simp_all add: Let_def)
    have "uploads ?tr2 = []"
      using Cons.prems(2) by (simp add: uploads_append uploads_WriteRow)
    with Cons.IH [OF call] show ?thesis .
  next
    case False
    from Cons.prems False
    have call: "batch_loop fetch bs d n (i + 1) rest (tasks @ [x]) tot tr = (tasks', tot', tr')"
      by (simp add: Let_def)
    from Cons.IH [OF call Cons.prems(2)] show ?thesis .
  qed
qed

lemma run_batches_uploads: "uploads (snd (run_batches fetch bs d ids)) = []"
proof -
  obtain tasks' tot' tr' where
    b: "batch_loop fetch bs d (length ids) 0 ids [] 0 [] = (tasks', tot', tr')"
    by (cases "batch_loop fetch bs d (length ids) 0 ids [] (0::nat) ([] :: 'a event list)") auto
  from batch_loop_uploads [OF b] have "uploads tr' = []" by simp
  then show ?thesis
    by (simp add: run_batches_def b Let_def uploads_append uploads_WriteRow)
qed

lemma scrape_by_date_trace:
  "scrape_by_date cfg a_hrefs post extract get date bsa dla = (res, tr) \<Longrightarrow>
     uploads tr = [] \<and> (\<forall>n. res = Inr n \<longrightarrow> n = length (written_rows tr))"
proof -
  assume a: "scrape_by_date cfg a_hrefs post extract get date bsa dla = (res, tr)"
  obtain sres posts where s: "search_boletines a_hrefs post date = (sres, posts)"
    by (cases "search_boletines a_hrefs post date") auto
  have wp: "written_rows (map Post posts) = ([] :: 'a list)"
    by (induction posts) simp_all
  show ?thesis
  proof (cases sres)
    case (Inl e)
    with a s show ?thesis
      by (auto simp: scrape_by_date_def Let_def uploads_append uploads_Post)
  next
    case (Inr norma_ids)
    let ?f = "\<lambda>norma_id. task_of (scrape_norma_by_id extract get norma_id)"
    let ?bs = "case bsa of Some b \<Rightarrow> b | None \<Rightarrow> batch_size cfg"
    let ?dl = "case dla of Some d \<Rightarrow> d | None \<Rightarrow> delay_bw_batches cfg"
    let ?ids = "py_slice_to norma_ids (daily_scrape_count cfg)"
    obtain tot t where r: "run_batches ?f ?bs ?dl ?ids = (tot, t)"
      by (cases "run_batches ?f ?bs ?dl ?ids") auto
    from run_batches_rows [of ?f ?bs ?dl ?ids] r
    have rows: "written_rows t = dicts (map ?f ?ids)" "tot = length (dicts (map ?f ?ids))"
      by simp_all
    from run_batches_uploads [of ?f ?bs ?dl ?ids] r have up: "uploads t = []" by simp
    from a s Inr r have res: "res = Inr tot" and tr: "tr = [WriteHeader] @ map Post posts @ t @ [CloseFile]"
      by (simp_all add: scrape_by_date_def Let_def)
    show ?thesis
      using rows up by (simp add: res tr uploads_append uploads_Post written_rows_append wp)
  qed
qed

text \<open>
  Claim C7. When the fetch stage returns, its count is the number of rows it wrote and
  it has uploaded nothing. A count of zero makes the asset raise \<open>LookupError\<close> with
  no upload; with a positive count the asset goes on to upload the day's file and, when
  the upload succeeds, reports the count.
\<close>

theorem zero_count_fails_partition:
  "scrape_by_date cfg a_hrefs post extract get date None None = (Inr n, tr) \<Longrightarrow>
     n = length (written_rows tr)
     \<and> uploads tr = []
     \<and> (n = 0 \<longrightarrow>
          scrape_boletin_and_archive cfg a_hrefs post extract get upload date = (Inl LookupError, tr))
     \<and> (0 < n \<longrightarrow>
          scrape_boletin_and_archive cfg a_hrefs post extract get upload date
            = (case upload (''/tmp/normas_'' @ date @ ''.csv'') (''daily_scrapes/normas_'' @ date @ ''.csv'') of
                 Inl e \<Rightarrow> Inl e
               | Inr (gcs_path, blob_size) \<Rightarrow> Inr \<lparr>partition_row_count = n, uri = gcs_path\<rparr>,
               tr @ [UploadFile (''/tmp/normas_'' @ date @ ''.csv'') (''daily_scrapes/normas_'' @ date @ ''.csv'')]))"
proof -
  assume a: "scrape_by_date cfg a_hrefs post extract get date None None = (Inr n, tr)"
  from scrape_by_date_trace [OF a] have t: "uploads tr = []" "n = length (written_rows tr)"
    by simp_all
  have z: "n = 0 \<longrightarrow>
          scrape_boletin_and_archive cfg a_hrefs post extract get upload date = (Inl LookupError, tr)"
    by (simp add: scrape_boletin_and_archive_def a Let_def)
  have p: "0 < n \<longrightarrow>
          scrape_boletin_and_archive cfg a_hrefs post extract get upload date
            = (case upload (''/tmp/normas_'' @ date @ ''.csv'') (''daily_scrapes/normas_'' @ date @ ''.csv'') of
                 Inl e \<Rightarrow> Inl e
               | Inr (gcs_path, blob_size) \<Rightarrow> Inr \<lparr>partition_row_count = n, uri = gcs_path\<rparr>,
               tr @ [UploadFile (''/tmp/normas_'' @ date @ ''.csv'') (''daily_scrapes/normas_'' @ date @ ''.csv'')])"
    by (simp add: scrape_boletin_and_archive_def a Let_def split: sum.splits prod.splits)
  from t(2) t(1) z p show ?thesis by (intro conjI)
qed


theorem gather_isolates_failures_witness:
  "(4::int) \<in> set (written_rows (snd (run_batches
       (\<lambda>k. if k = 3 then TaskException OtherException else if k = 5 then TaskNone else TaskDict k)
       10 3 [1, 2, 3, 4, 5, 6, 7, 8, 9, 10])))"
proof -
  let ?f = "\<lambda>k::int. if k = 3 then TaskException OtherException
                      else if k = 5 then TaskNone else TaskDict k"
  let ?ids = "[1, 2, 3, 4, 5, 6, 7, 8, 9, 10] :: int list"
  have p: "(4::int) \<in> set ?ids \<and> ?f 4 = TaskDict 4" by simp
  from gather_isolates_failures [of ?f 10 3 ?ids, THEN conjunct2, THEN conjunct2,
         THEN spec, THEN spec, THEN mp, OF p]
  show ?thesis .
qed

theorem fetcher_batches_witness:
  "map length (groups_of (nat 10)
       [1, 2, 3, 4, 5, 6, 7, 8, 9, 10, 11, 12, 13, 14, 15, 16, 17, 18, 19, 20, 21, 22, 23, 24, 25 :: int])
     = [10, 10, 5]
   \<and> snd (run_batches (\<lambda>k. if k = 3 then TaskNone else TaskDict k) 10 2
       [1, 2, 3, 4, 5, 6, 7, 8, 9, 10, 11, 12, 13, 14, 15, 16, 17, 18, 19, 20, 21, 22, 23, 24, 25])
     = groups_trace (\<lambda>k. if k = 3 then TaskNone else TaskDict k) (nat 10) 2
         (groups_of (nat 10)
           [1, 2, 3, 4, 5, 6, 7, 8, 9, 10, 11, 12, 13, 14, 15, 16, 17, 18, 19, 20, 21, 22, 23, 24, 25])"
proof -
  let ?f = "\<lambda>k::int. if k = 3 then TaskNone else TaskDict k"
  let ?ids = "[1, 2, 3, 4, 5, 6, 7, 8, 9, 10, 11, 12, 13, 14, 15, 16, 17, 18, 19, 20,
               21, 22, 23, 24, 25] :: int list"
  have W: "0 < (10::int)" by simp
  note t = fetcher_batches [OF W, of ?f 2 ?ids]
  have e: "replicate (length ?ids div nat 10) (nat 10)
             @ (if length ?ids mod nat 10 = 0 then [] else [length ?ids mod nat 10]) = [10, 10, 5]"
    by code_simp
  have l: "map length (groups_of (nat 10) ?ids) = [10, 10, 5]"
    using t [THEN conjunct2, THEN conjunct2] e by (rule trans)
  from l t [THEN conjunct1] show ?thesis by (rule conjI)
qed

theorem zero_count_fails_partition_witness:
  "scrape_boletin_and_archive \<lparr>daily_scrape_count = 200, batch_size = 10, delay_bw_batches = 3\<rparr>
       (\<lambda>markup. []) (\<lambda>form. Responded \<lparr>status_code = 200, resp_text = ''Sin resultados''\<rparr>)
       (\<lambda>norma_id markup. Inr norma_id) (\<lambda>norma_id. RequestFailed)
       (\<lambda>f b. Inr (b, 10)) ''2025-10-06''
     = (Inl LookupError,
        [WriteHeader,
         Post \<lparr>buscarPorNro = ''false'', diaPub = 6, mesPub = 10, anioPub = 2025\<rparr>,
         CloseFile])
   \<and> scrape_boletin_and_archive \<lparr>daily_scrape_count = 200, batch_size = 10, delay_bw_batches = 3\<rparr>
       (\<lambda>markup. [''verNorma.do?id=111'', ''verNorma.do?id=222'', ''verNorma.do?id=333''])
       (\<lambda>form. Responded \<lparr>status_code = 200, resp_text = []\<rparr>)
       (\<lambda>norma_id markup. Inr norma_id)
       (\<lambda>norma_id. Responded \<lparr>status_code = (if norma_id = 222 then 404 else 200), resp_text = []\<rparr>)
       (\<lambda>f b. Inr (b, 10)) ''2025-10-06''
     = (Inr \<lparr>partition_row_count = 2, uri = ''daily_scrapes/normas_2025-10-06.csv''\<rparr>,
        [WriteHeader,
         Post \<lparr>buscarPorNro = ''false'', diaPub = 6, mesPub = 10, anioPub = 2025\<rparr>,
         Gather [111, 222, 333], WriteRow 111, WriteRow 333, CloseFile,
         UploadFile ''/tmp/normas_2025-10-06.csv'' ''daily_scrapes/normas_2025-10-06.csv''])"
proof -
  let ?cfg = "\<lparr>daily_scrape_count = 200, batch_size = 10, delay_bw_batches = 3\<rparr>"
  let ?form = "\<lparr>buscarPorNro = ''false'', diaPub = 6, mesPub = 10, anioPub = 2025\<rparr>"
  let ?up = "\<lambda>(f::string) (b::string). Inr (b, 10::nat) :: exn + string \<times> nat"
  have e0: "scrape_by_date ?cfg
       (\<lambda>markup. []) (\<lambda>form. Responded \<lparr>status_code = 200, resp_text = ''Sin resultados''\<rparr>)
       (\<lambda>norma_id markup. Inr norma_id) (\<lambda>norma_id. RequestFailed) ''2025-10-06'' None None
     = (Inr 0, [WriteHeader, Post ?form, CloseFile :: int event])"
    by code_simp
  have e1: "scrape_by_date ?cfg
       (\<lambda>markup. [''verNorma.do?id=111'', ''verNorma.do?id=222'', ''verNorma.do?id=333''])
       (\<lambda>form. Responded \<lparr>status_code = 200, resp_text = []\<rparr>)
       (\<lambda>norma_id markup. Inr norma_id)
       (\<lambda>norma_id. Responded \<lparr>status_code = (if norma_id = 222 then 404 else 200), resp_text = []\<rparr>)
       ''2025-10-06'' None None
     = (Inr 2, [WriteHeader, Post ?form, Gather [111, 222, 333], WriteRow 111, WriteRow 333,
                CloseFile :: int event])"
    by code_simp
  note a = zero_count_fails_partition [OF e0, of ?up, THEN conjunct2, THEN conjunct2,
             THEN conjunct1, THEN mp, OF refl]
  have pos: "0 < (2::nat)" by simp
  note b = zero_count_fails_partition [OF e1, of ?up, THEN conjunct2, THEN conjunct2,
             THEN conjunct2, THEN mp, OF pos]
  from b have b': "scrape_boletin_and_archive ?cfg
       (\<lambda>markup. [''verNorma.do?id=111'', ''verNorma.do?id=222'', ''verNorma.do?id=333''])
       (\<lambda>form. Responded \<lparr>status_code = 200, resp_text = []\<rparr>)
       (\<lambda>norma_id markup. Inr norma_id)
       (\<lambda>norma_id. Responded \<lparr>status_code = (if norma_id = 222 then 404 else 200), resp_text = []\<rparr>)
       ?up ''2025-10-06''
     = (Inr \<lparr>partition_row_count = 2, uri = ''daily_scrapes/normas_2025-10-06.csv''\<rparr>,
        [WriteHeader, Post ?form, Gather [111, 222, 333], WriteRow 111, WriteRow 333, CloseFile,
         UploadFile ''/tmp/normas_2025-10-06.csv'' ''daily_scrapes/normas_2025-10-06.csv''])"
    by simp
  from a b' show ?thesis by (rule conjI)
qed

section \<open>Properties of the merge pipeline\<close>

lemma ids_unique_keep_last: "set (map id_norma (unique_keep_last rows)) = set (map id_norma rows)"
  by (induction rows) auto

lemma distinct_unique_keep_last: "distinct (map id_norma (unique_keep_last rows))"
proof (induction rows)
  case Nil
  show ?case by simp
next
  case (Cons r rs)
  from ids_unique_keep_last [of rs]
  have "id_norma r \<notin> set (map id_norma rs) \<Longrightarrow> id_norma r \<notin> set (map id_norma (unique_keep_last rs))"
    by simp
  with Cons show ?case by simp
qed

lemma filter_unique_keep_last:
  "filter (\<lambda>r. id_norma r = k) (unique_keep_last rows)
     = (if k \<in> set (map id_norma rows) then [last (filter (\<lambda>r. id_norma r = k) rows)] else [])"
proof (induction rows)
  case Nil
  show ?case by simp
next
  case (Cons r rs)
  have ne: "k \<in> set (map id_norma rs) \<longleftrightarrow> filter (\<lambda>r. id_norma r = k) rs \<noteq> []"
    by (auto simp: filter_empty_conv)
  show ?case
  proof (cases "id_norma r = k")
    case True
    with Cons ne show ?thesis by auto
  next
    case False
    with Cons show ?thesis by auto
  qed
qed

text \<open>
  Claim C3. For every master file that the reader accepts, the data frame loaded by the
  dedupe-and-load step has one row for each \<open>id_norma\<close> of the file and no other row:
  its identifiers are distinct, they are the identifiers of the file, and the row kept
  for an identifier is the last row of the file with that identifier.
\<close>

theorem dedupe_keeps_last:
  "scan_csv header_ok parse_row master_text = Inr rows \<Longrightarrow>
     (\<exists>df. master_to_bigquery header_ok parse_row master_text = Inr df
        \<and> distinct (map id_norma df)
        \<and> set (map id_norma df) = set (map id_norma rows)
        \<and> (\<forall>k. filter (\<lambda>r. id_norma r = k) df
              = (if k \<in> set (map id_norma rows)
                 then [last (filter (\<lambda>r. id_norma r = k) rows)] else [])))"
proof -
  assume a: "scan_csv header_ok parse_row master_text = Inr rows"
  then have "master_to_bigquery header_ok parse_row master_text = Inr (unique_keep_last rows)"
    by (simp add: master_to_bigquery_def)
  moreover have "\<forall>k. filter (\<lambda>r. id_norma r = k) (unique_keep_last rows)
              = (if k \<in> set (map id_norma rows)
                 then [last (filter (\<lambda>r. id_norma r = k) rows)] else [])"
    using filter_unique_keep_last [of _ rows] by blast
  ultimately show ?thesis
    using distinct_unique_keep_last [of rows] ids_unique_keep_last [of rows] by blast
qed

lemma unique_keep_last_append:
  "unique_keep_last (xs @ ys)
     = filter (\<lambda>r. id_norma r \<notin> set (map id_norma ys)) (unique_keep_last xs) @ unique_keep_last ys"
  by (induction xs) auto

lemma unique_keep_last_again:
  assumes "set (map id_norma zs) \<subseteq> set (map id_norma ys)"
  shows "unique_keep_last (xs @ ys @ zs) = unique_keep_last (xs @ ys)
           \<longleftrightarrow> unique_keep_last (ys @ zs) = unique_keep_last ys"
    and "unique_keep_last (ys @ zs) = unique_keep_last ys \<Longrightarrow>
           unique_keep_last (xs @ ys @ zs) = unique_keep_last (xs @ ys)"
proof -
  from assms have s: "set (map id_norma (ys @ zs)) = set (map id_norma ys)" by auto
  have a: "unique_keep_last (xs @ ys @ zs)
             = filter (\<lambda>r. id_norma r \<notin> set (map id_norma ys)) (unique_keep_last xs)
               @ unique_keep_last (ys @ zs)"
    using unique_keep_last_append [of xs "ys @ zs"] unfolding s .
  show "unique_keep_last (xs @ ys @ zs) = unique_keep_last (xs @ ys)
           \<longleftrightarrow> unique_keep_last (ys @ zs) = unique_keep_last ys"
    unfolding a unique_keep_last_append [of xs ys] by simp
  then show "unique_keep_last (ys @ zs) = unique_keep_last ys \<Longrightarrow>
           unique_keep_last (xs @ ys @ zs) = unique_keep_last (xs @ ys)"
    by simp
qed

lemma unique_keep_last_twice: "unique_keep_last (ys @ ys) = unique_keep_last ys"
proof -
  have "filter (\<lambda>r. id_norma r \<notin> set (map id_norma ys)) (unique_keep_last ys) = []"
    using ids_unique_keep_last [of ys] by (auto simp: filter_empty_conv)
  then show ?thesis by (simp add: unique_keep_last_append [of ys ys])
qed

lemma unique_keep_last_tail_again: "unique_keep_last ((n # ys) @ ys) = unique_keep_last (n # ys)"
proof -
  have f: "filter (\<lambda>r. id_norma r \<notin> set (map id_norma ys)) (unique_keep_last ys) = []"
    using ids_unique_keep_last [of ys] by (auto simp: filter_empty_conv)
  show ?thesis
    unfolding unique_keep_last_append [of "n # ys" ys] using f by simp
qed

lemma split_lines_not_Nil: "split_lines s \<noteq> []"
  by (induction s) (auto split: list.splits)

lemma split_lines_append:
  "split_lines (a @ CHR 0x0A # b) = split_lines a @ split_lines b"
proof (induction a)
  case Nil
  show ?case by simp
next
  case (Cons c cs)
  then show ?case
    using split_lines_not_Nil [of cs] by (auto split: list.splits)
qed

lemma split_lines_final: "split_lines (a @ [CHR 0x0A]) = split_lines a @ [[]]"
  using split_lines_append [of a "[]"] by simp

lemma csv_lines_append:
  "csv_lines (a @ CHR 0x0A # b) = split_lines a @ csv_lines b"
proof -
  have ne: "split_lines b \<noteq> []" by (rule split_lines_not_Nil)
  then have "last (split_lines a @ split_lines b) = last (split_lines b)"
    and "butlast (split_lines a @ split_lines b) = split_lines a @ butlast (split_lines b)"
    by (simp_all add: butlast_append)
  then show ?thesis
    by (simp add: csv_lines_def split_lines_append Let_def)
qed

lemma parse_rows_append:
  "parse_rows p (xs @ ys)
     = (case parse_rows p xs of
          None \<Rightarrow> None
        | Some a \<Rightarrow> (case parse_rows p ys of None \<Rightarrow> None | Some b \<Rightarrow> Some (a @ b)))"
  by (induction xs) (auto split: option.splits)

lemma parse_rows_blank:
  "parse_rows (parse_record p) ([] # ys)
     = (case parse_rows (parse_record p) ys of None \<Rightarrow> None | Some b \<Rightarrow> Some (null_row # b))"
  by (simp add: parse_record_def)


lemma split_or_csv_lines:
  "split_lines b = csv_lines b \<or> split_lines b = csv_lines b @ [[]]"
proof (cases "last (split_lines b) = []")
  case True
  have "split_lines b = butlast (split_lines b) @ [last (split_lines b)]"
    using split_lines_not_Nil [of b] by simp
  with True show ?thesis by (simp add: csv_lines_def)
next
  case False
  then show ?thesis by (simp add: csv_lines_def)
qed

lemma dedupe_rows_again:
  assumes "rows2 = a @ (null_row # c) @ c \<or> rows2 = a @ (null_row # c) @ (null_row # c)"
  shows "unique_keep_last rows2 = unique_keep_last (a @ null_row # c)"
proof -
  from assms show ?thesis
  proof
    assume r: "rows2 = a @ (null_row # c) @ c"
    have "set (map id_norma c) \<subseteq> set (map id_norma (null_row # c))" by auto
    from unique_keep_last_again(2) [OF this unique_keep_last_tail_again, of a]
    show ?thesis unfolding r .
  next
    assume r: "rows2 = a @ (null_row # c) @ (null_row # c)"
    have "set (map id_norma (null_row # c)) \<subseteq> set (map id_norma (null_row # c))" by simp
    from unique_keep_last_again(2) [OF this unique_keep_last_twice, of a]
    show ?thesis unfolding r .
  qed
qed

lemma parse_rows_None_suffix: "parse_rows q ys = None \<Longrightarrow> parse_rows q (xs @ ys) = None"
  by (simp add: parse_rows_append split: option.splits)

lemma parse_rows_None_prefix: "parse_rows q xs = None \<Longrightarrow> parse_rows q (xs @ ys) = None"
  by (simp add: parse_rows_append)

lemma parse_rows_Some_append:
  "parse_rows q xs = Some a \<Longrightarrow> parse_rows q ys = Some b \<Longrightarrow> parse_rows q (xs @ ys) = Some (a @ b)"
  by (simp add: parse_rows_append)

lemma parse_rows_Some_blank:
  "parse_rows (parse_record p) ys = Some b \<Longrightarrow>
     parse_rows (parse_record p) ([] # ys) = Some (null_row # b)"
  by (simp add: parse_record_def)

lemma reload_after_second_append:
  "master_to_bigquery hk p (((x @ [CHR 0x0A]) @ CHR 0x0A # b) @ CHR 0x0A # b)
     = master_to_bigquery hk p ((x @ [CHR 0x0A]) @ CHR 0x0A # b)"
proof -
  let ?m = "x @ [CHR 0x0A]"
  let ?m1 = "?m @ CHR 0x0A # b"
  let ?m2 = "?m1 @ CHR 0x0A # b"
  let ?P = "parse_rows (parse_record p)"
  let ?C = "csv_lines b"
  let ?S = "split_lines b"
  obtain h R where X: "split_lines x = h # R"
    using split_lines_not_Nil [of x] by (cases "split_lines x") auto
  have one: "csv_lines ?m1 = h # (R @ [] # ?C)"
    unfolding csv_lines_append [of ?m b] split_lines_final X by simp
  have two: "csv_lines ?m2 = h # (R @ [] # ?S @ ?C)"
    unfolding csv_lines_append [of ?m1 b] split_lines_append [of ?m b] split_lines_final X
    by simp
  have load1: "master_to_bigquery hk p ?m1
                 = (if \<not> hk h then Inl SchemaError
                    else case ?P (R @ [] # ?C) of
                           None \<Rightarrow> Inl ComputeError
                         | Some rows \<Rightarrow> Inr (unique_keep_last rows))"
    unfolding master_to_bigquery_def scan_csv_def one
    by (cases "?P (R @ [] # ?C)") simp_all
  have load2: "master_to_bigquery hk p ?m2
                 = (if \<not> hk h then Inl SchemaError
                    else case ?P (R @ [] # ?S @ ?C) of
                           None \<Rightarrow> Inl ComputeError
                         | Some rows \<Rightarrow> Inr (unique_keep_last rows))"
    unfolding master_to_bigquery_def scan_csv_def two
    by (cases "?P (R @ [] # ?S @ ?C)") simp_all
  have same: "(case ?P (R @ [] # ?S @ ?C) of
                 None \<Rightarrow> Inl ComputeError | Some rows \<Rightarrow> Inr (unique_keep_last rows))
            = (case ?P (R @ [] # ?C) of
                 None \<Rightarrow> (Inl ComputeError :: exn + master_row list)
               | Some rows \<Rightarrow> Inr (unique_keep_last rows))"
  proof (cases "?P R")
    case None
    from parse_rows_None_prefix [OF None, of "[] # ?C"]
         parse_rows_None_prefix [OF None, of "[] # ?S @ ?C"]
    show ?thesis by simp
  next
    case a: (Some a)
    show ?thesis
    proof (cases "?P ?C")
      case None
      from parse_rows_None_suffix [OF None, of "R @ [[]]"]
           parse_rows_None_suffix [OF None, of "R @ [] # ?S"]
      show ?thesis by simp
    next
      case c: (Some c)
      note bc = parse_rows_Some_blank [OF c]
      from parse_rows_Some_append [OF a bc]
      have r1: "?P (R @ [] # ?C) = Some (a @ null_row # c)" by simp
      from split_or_csv_lines [of b]
      have "\<exists>rows2. ?P (R @ [] # ?S @ ?C) = Some rows2
                \<and> (rows2 = a @ (null_row # c) @ c \<or> rows2 = a @ (null_row # c) @ (null_row # c))"
      proof
        assume e: "?S = ?C"
        from parse_rows_Some_append [OF a parse_rows_Some_blank [OF parse_rows_Some_append [OF c c]]]
        show ?thesis unfolding e by simp
      next
        assume e: "?S = ?C @ [[]]"
        from parse_rows_Some_append [OF a
               parse_rows_Some_blank [OF parse_rows_Some_append [OF c bc]]]
        show ?thesis unfolding e by simp
      qed
      then obtain rows2 where r2: "?P (R @ [] # ?S @ ?C) = Some rows2"
        and d: "rows2 = a @ (null_row # c) @ c \<or> rows2 = a @ (null_row # c) @ (null_row # c)"
        by blast
      from dedupe_rows_again [OF d] show ?thesis
        unfolding r1 r2 by simp
    qed
  qed
  show ?thesis unfolding load1 load2 same ..
qed

text \<open>
  Claim C4, amended. For a master file that ends with a newline, as every append leaves
  it, appending the same day's file a second time does not change what the
  dedupe-and-load step loads: the deduplicated rows after two appends are those after
  one append, and so is their count.
\<close>

theorem append_twice_same_dedupe:
  "master = x @ [CHR 0x0A] \<Longrightarrow>
   master_daily_merge output_text (Some master) archived = Inr (m1, n1) \<Longrightarrow>
   master_daily_merge output_text (Some m1) archived = Inr (m2, n2) \<Longrightarrow>
     master_to_bigquery header_ok parse_row m2 = master_to_bigquery header_ok parse_row m1
     \<and> map_sum id length (master_to_bigquery header_ok parse_row m2)
         = map_sum id length (master_to_bigquery header_ok parse_row m1)"
proof -
  assume h: "master = x @ [CHR 0x0A]"
    and a1: "master_daily_merge output_text (Some master) archived = Inr (m1, n1)"
    and a2: "master_daily_merge output_text (Some m1) archived = Inr (m2, n2)"
  let ?body = "concat (tl (py_readlines (universal_newlines output_text)))"
  from a1 have m1: "m1 = master @ CHR 0x0A # ?body"
    by (simp add: master_daily_merge_def Let_def)
  from a2 have m2: "m2 = m1 @ CHR 0x0A # ?body"
    by (simp add: master_daily_merge_def Let_def)
  have "master_to_bigquery header_ok parse_row m2 = master_to_bigquery header_ok parse_row m1"
    unfolding m2 unfolding m1 unfolding h by (rule reload_after_second_append)
  then show ?thesis by simp
qed

theorem dedupe_keeps_last_witness:
  "\<exists>df. master_to_bigquery example_header_ok example_row
           (csv_header @ [CHR 0x0A] @ ''7,,,,,,,,,old,,,,,,,'' @ [CHR 0x0A]
              @ ''8,,,,,,,,,other,,,,,,,'' @ [CHR 0x0A] @ ''7,,,,,,,,,new,,,,,,,'' @ [CHR 0x0A]) = Inr df
        \<and> distinct (map id_norma df)
        \<and> set (map id_norma df)
            = set (map id_norma (the (parse_rows example_row
                [''7,,,,,,,,,old,,,,,,,'', ''8,,,,,,,,,other,,,,,,,'', ''7,,,,,,,,,new,,,,,,,''])))
        \<and> (\<forall>k. filter (\<lambda>r. id_norma r = k) df
              = (if k \<in> set (map id_norma (the (parse_rows example_row
                     [''7,,,,,,,,,old,,,,,,,'', ''8,,,,,,,,,other,,,,,,,'', ''7,,,,,,,,,new,,,,,,,''])))
                 then [last (filter (\<lambda>r. id_norma r = k)
                         (the (parse_rows example_row
                            [''7,,,,,,,,,old,,,,,,,'', ''8,,,,,,,,,other,,,,,,,'',
                             ''7,,,,,,,,,new,,,,,,,''])))]
                 else []))"
proof -
  have sc: "scan_csv example_header_ok example_row
           (csv_header @ [CHR 0x0A] @ ''7,,,,,,,,,old,,,,,,,'' @ [CHR 0x0A]
              @ ''8,,,,,,,,,other,,,,,,,'' @ [CHR 0x0A] @ ''7,,,,,,,,,new,,,,,,,'' @ [CHR 0x0A])
        = Inr (the (parse_rows example_row
                [''7,,,,,,,,,old,,,,,,,'', ''8,,,,,,,,,other,,,,,,,'', ''7,,,,,,,,,new,,,,,,,'']))"
    by code_simp
  from dedupe_keeps_last [OF sc] show ?thesis .
qed

theorem append_twice_same_dedupe_witness:
  "master_to_bigquery example_header_ok example_row
       (csv_header @ [CHR 0x0A] @ ''7,,,,,,,,,old,,,,,,,'' @ [CHR 0x0A]
          @ [CHR 0x0A] @ ''7,,,,,,,,,new,,,,,,,'' @ [CHR 0x0A] @ ''9,,,,,,,,,b,,,,,,,'' @ [CHR 0x0A]
          @ [CHR 0x0A] @ ''7,,,,,,,,,new,,,,,,,'' @ [CHR 0x0A] @ ''9,,,,,,,,,b,,,,,,,'' @ [CHR 0x0A])
     = master_to_bigquery example_header_ok example_row
       (csv_header @ [CHR 0x0A] @ ''7,,,,,,,,,old,,,,,,,'' @ [CHR 0x0A]
          @ [CHR 0x0A] @ ''7,,,,,,,,,new,,,,,,,'' @ [CHR 0x0A] @ ''9,,,,,,,,,b,,,,,,,'' @ [CHR 0x0A])"
proof -
  let ?master = "csv_header @ [CHR 0x0A] @ ''7,,,,,,,,,old,,,,,,,'' @ [CHR 0x0A]"
  let ?day = "csv_header @ [CHR 0x0D, CHR 0x0A] @ ''7,,,,,,,,,new,,,,,,,'' @ [CHR 0x0D, CHR 0x0A]
          @ ''9,,,,,,,,,b,,,,,,,'' @ [CHR 0x0D, CHR 0x0A]"
  let ?m1 = "csv_header @ [CHR 0x0A] @ ''7,,,,,,,,,old,,,,,,,'' @ [CHR 0x0A]
          @ [CHR 0x0A] @ ''7,,,,,,,,,new,,,,,,,'' @ [CHR 0x0A] @ ''9,,,,,,,,,b,,,,,,,'' @ [CHR 0x0A]"
  let ?m2 = "csv_header @ [CHR 0x0A] @ ''7,,,,,,,,,old,,,,,,,'' @ [CHR 0x0A]
          @ [CHR 0x0A] @ ''7,,,,,,,,,new,,,,,,,'' @ [CHR 0x0A] @ ''9,,,,,,,,,b,,,,,,,'' @ [CHR 0x0A]
          @ [CHR 0x0A] @ ''7,,,,,,,,,new,,,,,,,'' @ [CHR 0x0A] @ ''9,,,,,,,,,b,,,,,,,'' @ [CHR 0x0A]"
  have h: "?master = (csv_header @ [CHR 0x0A] @ ''7,,,,,,,,,old,,,,,,,'') @ [CHR 0x0A]" by simp
  have a1: "master_daily_merge ?day (Some ?master) None = Inr (?m1, 2)" by code_simp
  have a2: "master_daily_merge ?day (Some ?m1) None = Inr (?m2, 2)" by code_simp
  from append_twice_same_dedupe [OF h a1 a2, of example_header_ok example_row, THEN conjunct1]
  show ?thesis .
qed

text \<open>
  Claim C4 as stated fails for a master file whose last line has no newline. The first
  append completes that line; the second append then leaves a blank line, which the
  reader loads as a row of nulls: one deduplicated row after one append, two after two.
\<close>

theorem append_twice_counterexample:
  "master_daily_merge
       (csv_header @ [CHR 0x0D, CHR 0x0A] @ ''7,,,,,,,,,new,,,,,,,'' @ [CHR 0x0D, CHR 0x0A])
       (Some (csv_header @ [CHR 0x0A] @ ''7,,,,,,,,,old,,,,,,,'')) None
     = Inr (csv_header @ [CHR 0x0A] @ ''7,,,,,,,,,old,,,,,,,''
              @ [CHR 0x0A] @ ''7,,,,,,,,,new,,,,,,,'' @ [CHR 0x0A], 1)
   \<and> master_daily_merge
       (csv_header @ [CHR 0x0D, CHR 0x0A] @ ''7,,,,,,,,,new,,,,,,,'' @ [CHR 0x0D, CHR 0x0A])
       (Some (csv_header @ [CHR 0x0A] @ ''7,,,,,,,,,old,,,,,,,''
              @ [CHR 0x0A] @ ''7,,,,,,,,,new,,,,,,,'' @ [CHR 0x0A])) None
     = Inr (csv_header @ [CHR 0x0A] @ ''7,,,,,,,,,old,,,,,,,''
              @ [CHR 0x0A] @ ''7,,,,,,,,,new,,,,,,,'' @ [CHR 0x0A]
              @ [CHR 0x0A] @ ''7,,,,,,,,,new,,,,,,,'' @ [CHR 0x0A], 1)
   \<and> map_sum id length (master_to_bigquery example_header_ok example_row
        (csv_header @ [CHR 0x0A] @ ''7,,,,,,,,,old,,,,,,,''
              @ [CHR 0x0A] @ ''7,,,,,,,,,new,,,,,,,'' @ [CHR 0x0A])) = Inr 1
   \<and> map_sum id length (master_to_bigquery example_header_ok example_row
        (csv_header @ [CHR 0x0A] @ ''7,,,,,,,,,old,,,,,,,''
              @ [CHR 0x0A] @ ''7,,,,,,,,,new,,,,,,,'' @ [CHR 0x0A]
              @ [CHR 0x0A] @ ''7,,,,,,,,,new,,,,,,,'' @ [CHR 0x0A])) = Inr 2"
  by code_simp

section \<open>Properties of the date normalizer and of the extracted dates\<close>

lemma char_eq_of_char: "(a = b) \<longleftrightarrow> (of_char a :: nat) = of_char b"
  by (metis char_of_char)

lemma int_of_digits_1: "int_of_digits [a] = digit_val a"
  by (simp add: int_of_digits_def)

lemma int_of_digits_2: "int_of_digits [a, b] = 10 * digit_val a + digit_val b"
  by (simp add: int_of_digits_def)

lemma int_of_digits_4:
  "int_of_digits [a, b, c, d] = 1000 * digit_val a + 100 * digit_val b + 10 * digit_val c + digit_val d"
  by (simp add: int_of_digits_def)

lemma day_two_digits:
  "is_digit a \<Longrightarrow> is_digit b \<Longrightarrow>
     (1 \<le> int_of_digits [a, b] \<and> int_of_digits [a, b] \<le> 31) \<longleftrightarrow>
     ((a = CHR ''3'' \<and> in_range CHR ''0'' CHR ''1'' b) \<or> (in_range CHR ''1'' CHR ''2'' a \<and> is_digit b)
      \<or> (a = CHR ''0'' \<and> in_range CHR ''1'' CHR ''9'' b))"
  unfolding int_of_digits_2 digit_val_def is_digit_def in_range_def Let_def char_eq_of_char [of a]
  by simp arith

lemma day_one_digit:
  "is_digit a \<Longrightarrow> (1 \<le> int_of_digits [a] \<and> int_of_digits [a] \<le> 31) \<longleftrightarrow> in_range CHR ''1'' CHR ''9'' a"
  unfolding int_of_digits_1 digit_val_def is_digit_def in_range_def Let_def
  by simp arith

lemma month_two_digits:
  "is_digit a \<Longrightarrow> is_digit b \<Longrightarrow>
     (1 \<le> int_of_digits [a, b] \<and> int_of_digits [a, b] \<le> 12) \<longleftrightarrow>
     ((a = CHR ''1'' \<and> in_range CHR ''0'' CHR ''2'' b) \<or> (a = CHR ''0'' \<and> in_range CHR ''1'' CHR ''9'' b))"
  unfolding int_of_digits_2 digit_val_def is_digit_def in_range_def Let_def char_eq_of_char [of a]
  by simp arith

lemma month_one_digit:
  "is_digit a \<Longrightarrow> (1 \<le> int_of_digits [a] \<and> int_of_digits [a] \<le> 12) \<longleftrightarrow> in_range CHR ''1'' CHR ''9'' a"
  unfolding int_of_digits_1 digit_val_def is_digit_def in_range_def Let_def
  by simp arith

lemma in_range_digit:
  "in_range CHR ''0'' CHR ''1'' c \<Longrightarrow> is_digit c"
  "in_range CHR ''0'' CHR ''2'' c \<Longrightarrow> is_digit c"
  "in_range CHR ''1'' CHR ''2'' c \<Longrightarrow> is_digit c"
  "in_range CHR ''1'' CHR ''9'' c \<Longrightarrow> is_digit c"
  by (simp_all add: in_range_def is_digit_def)

lemma const_digit:
  "is_digit CHR ''0''" "is_digit CHR ''1''" "is_digit CHR ''3''" "\<not> is_digit CHR '' ''"
  "\<not> is_digit CHR ''/''" "\<not> is_digit CHR ''-''"
  by (simp_all add: is_digit_def)

lemma set_two_chars:
  "(d, r) \<in> set (two_chars p q t) \<longleftrightarrow> (\<exists>a b. d = [a, b] \<and> t = a # b # r \<and> p a \<and> q b)"
  by (cases "(p, q, t)" rule: two_chars.cases) auto

lemma set_one_char:
  "(d, r) \<in> set (one_char p t) \<longleftrightarrow> (\<exists>a. d = [a] \<and> t = a # r \<and> p a)"
  by (cases "(p, t)" rule: one_char.cases) auto

lemma set_re_lit: "r \<in> set (re_lit x t) \<longleftrightarrow> t = x # r"
  by (cases "(x, t)" rule: re_lit.cases) auto

lemma length_4: "length y = 4 \<longleftrightarrow> (\<exists>a b c d. y = [a, b, c, d])"
  by (auto simp: eval_nat_numeral length_Suc_conv)

lemma set_re_Y:
  "(y, r) \<in> set (re_Y t) \<longleftrightarrow> (t = y @ r \<and> length y = 4 \<and> list_all is_digit y)"
proof
  assume "(y, r) \<in> set (re_Y t)"
  then show "t = y @ r \<and> length y = 4 \<and> list_all is_digit y"
    by (cases t rule: re_Y.cases) (auto split: if_splits)
next
  assume a: "t = y @ r \<and> length y = 4 \<and> list_all is_digit y"
  then obtain a b c d where "y = [a, b, c, d]" using length_4 [of y] by blast
  with a show "(y, r) \<in> set (re_Y t)" by simp
qed

lemma short_cases: "d \<noteq> [] \<and> length d \<le> 2 \<longleftrightarrow> (\<exists>a. d = [a]) \<or> (\<exists>a b. d = [a, b])"
  by (cases d; cases "tl d"; cases "tl (tl d)") auto

lemma set_re_d:
  assumes "t = [] \<or> hd t \<noteq> CHR '' ''"
  shows "(d, r) \<in> set (re_d t) \<longleftrightarrow> (t = d @ r \<and> day_text d)"
proof
  assume "(d, r) \<in> set (re_d t)"
  then consider
      a b where "d = [a, b]" "t = a # b # r" "a = CHR ''3''" "in_range CHR ''0'' CHR ''1'' b"
    | a b where "d = [a, b]" "t = a # b # r" "in_range CHR ''1'' CHR ''2'' a" "is_digit b"
    | a b where "d = [a, b]" "t = a # b # r" "a = CHR ''0''" "in_range CHR ''1'' CHR ''9'' b"
    | a where "d = [a]" "t = a # r" "in_range CHR ''1'' CHR ''9'' a"
    | a b where "d = [a, b]" "t = a # b # r" "a = CHR '' ''"
    by (auto simp: re_d_def set_two_chars set_one_char)
  then show "t = d @ r \<and> day_text d"
  proof cases
    case 1
    then show ?thesis
      using day_two_digits [of a b] by (simp add: day_text_def in_range_digit const_digit)
  next
    case 2
    then show ?thesis
      using day_two_digits [of a b] by (simp add: day_text_def in_range_digit)
  next
    case 3
    then show ?thesis
      using day_two_digits [of a b] by (simp add: day_text_def in_range_digit const_digit)
  next
    case 4
    then show ?thesis
      using day_one_digit [of a] by (simp add: day_text_def in_range_digit)
  next
    case 5
    with assms show ?thesis by simp
  qed
next
  assume a: "t = d @ r \<and> day_text d"
  then have "(\<exists>a. d = [a]) \<or> (\<exists>a b. d = [a, b])"
    using short_cases [of d] by (simp add: day_text_def)
  then show "(d, r) \<in> set (re_d t)"
  proof (elim disjE exE)
    fix x assume d: "d = [x]"
    with a have "in_range CHR ''1'' CHR ''9'' x"
      using day_one_digit [of x] by (simp add: day_text_def)
    with a d show ?thesis by (simp add: re_d_def set_two_chars set_one_char)
  next
    fix x y assume d: "d = [x, y]"
    with a have "(x = CHR ''3'' \<and> in_range CHR ''0'' CHR ''1'' y) \<or> (in_range CHR ''1'' CHR ''2'' x \<and> is_digit y)
      \<or> (x = CHR ''0'' \<and> in_range CHR ''1'' CHR ''9'' y)"
      using day_two_digits [of x y] by (simp add: day_text_def)
    with a d show ?thesis by (auto simp: re_d_def set_two_chars set_one_char)
  qed
qed

lemma set_re_m: "(m, r) \<in> set (re_m t) \<longleftrightarrow> (t = m @ r \<and> month_text m)"
proof
  assume "(m, r) \<in> set (re_m t)"
  then consider
      a b where "m = [a, b]" "t = a # b # r" "a = CHR ''1''" "in_range CHR ''0'' CHR ''2'' b"
    | a b where "m = [a, b]" "t = a # b # r" "a = CHR ''0''" "in_range CHR ''1'' CHR ''9'' b"
    | a where "m = [a]" "t = a # r" "in_range CHR ''1'' CHR ''9'' a"
    by (auto simp: re_m_def set_two_chars set_one_char)
  then show "t = m @ r \<and> month_text m"
  proof cases
    case 1
    then show ?thesis
      using month_two_digits [of a b] by (simp add: month_text_def in_range_digit const_digit)
  next
    case 2
    then show ?thesis
      using month_two_digits [of a b] by (simp add: month_text_def in_range_digit const_digit)
  next
    case 3
    then show ?thesis
      using month_one_digit [of a] by (simp add: month_text_def in_range_digit)
  qed
next
  assume a: "t = m @ r \<and> month_text m"
  then have "(\<exists>a. m = [a]) \<or> (\<exists>a b. m = [a, b])"
    using short_cases [of m] by (simp add: month_text_def)
  then show "(m, r) \<in> set (re_m t)"
  proof (elim disjE exE)
    fix x assume d: "m = [x]"
    with a have "in_range CHR ''1'' CHR ''9'' x"
      using month_one_digit [of x] by (simp add: month_text_def)
    with a d show ?thesis by (simp add: re_m_def set_two_chars set_one_char)
  next
    fix x y assume d: "m = [x, y]"
    with a have "(x = CHR ''1'' \<and> in_range CHR ''0'' CHR ''2'' y)
      \<or> (x = CHR ''0'' \<and> in_range CHR ''1'' CHR ''9'' y)"
      using month_two_digits [of x y] by (simp add: month_text_def)
    with a d show ?thesis by (auto simp: re_m_def set_two_chars set_one_char)
  qed
qed

lemma set_re_dmy:
  assumes "t = [] \<or> hd t \<noteq> CHR '' ''"
  shows "(d, m, y, rest) \<in> set (re_dmy t) \<longleftrightarrow>
           (t = d @ CHR ''/'' # m @ CHR ''/'' # y @ rest \<and> day_text d \<and> month_text m
            \<and> length y = 4 \<and> list_all is_digit y)"
proof -
  have "(d, m, y, rest) \<in> set (re_dmy t) \<longleftrightarrow>
          (\<exists>r1 r2 r3 r4. (d, r1) \<in> set (re_d t) \<and> r2 \<in> set (re_lit CHR ''/'' r1)
             \<and> (m, r3) \<in> set (re_m r2) \<and> r4 \<in> set (re_lit CHR ''/'' r3)
             \<and> (y, rest) \<in> set (re_Y r4))"
    unfolding re_dmy_def by fastforce
  also have "\<dots> \<longleftrightarrow>
          (\<exists>r1 r2 r3 r4. (t = d @ r1 \<and> day_text d) \<and> r1 = CHR ''/'' # r2
             \<and> (r2 = m @ r3 \<and> month_text m) \<and> r3 = CHR ''/'' # r4
             \<and> (r4 = y @ rest \<and> length y = 4 \<and> list_all is_digit y))"
    by (simp only: set_re_d [OF assms] set_re_m set_re_lit set_re_Y)
  also have "\<dots> \<longleftrightarrow>
          (t = d @ CHR ''/'' # m @ CHR ''/'' # y @ rest \<and> day_text d \<and> month_text m
            \<and> length y = 4 \<and> list_all is_digit y)"
    by auto
  finally show ?thesis .
qed

lemma digits_no_slash: "list_all is_digit g \<Longrightarrow> CHR ''/'' \<notin> set g"
  using const_digit(5) by (auto simp: list_all_iff)

lemma split_slash_decomp:
  "CHR ''/'' \<notin> set ds \<Longrightarrow> CHR ''/'' \<notin> set ms \<Longrightarrow>
     split_slash (ds @ CHR ''/'' # ms @ CHR ''/'' # ys) = Some (ds, ms, ys)"
proof -
  assume a: "CHR ''/'' \<notin> set ds" and b: "CHR ''/'' \<notin> set ms"
  let ?P = "\<lambda>c. c \<noteq> CHR ''/''"
  from a have d1: "dropWhile ?P (ds @ CHR ''/'' # ms @ CHR ''/'' # ys) = CHR ''/'' # ms @ CHR ''/'' # ys"
    by (subst dropWhile_append2) auto
  from a have t1: "takeWhile ?P (ds @ CHR ''/'' # ms @ CHR ''/'' # ys) = ds"
    by (subst takeWhile_append2) auto
  from b have d2: "dropWhile ?P (ms @ CHR ''/'' # ys) = CHR ''/'' # ys"
    by (subst dropWhile_append2) auto
  from b have t2: "takeWhile ?P (ms @ CHR ''/'' # ys) = ms"
    by (subst takeWhile_append2) auto
  show ?thesis by (simp add: split_slash_def d1 t1 d2 t2)
qed

lemma dropWhile_Cons_hd: "dropWhile P xs = c # r \<Longrightarrow> \<not> P c \<and> xs = takeWhile P xs @ c # r"
  by (metis hd_dropWhile list.sel(1) list.simps(3) takeWhile_dropWhile_id)

lemma split_slash_Some:
  "split_slash t = Some (ds, ms, ys) \<Longrightarrow> t = ds @ CHR ''/'' # ms @ CHR ''/'' # ys"
proof -
  let ?P = "\<lambda>c. c \<noteq> CHR ''/''"
  assume a: "split_slash t = Some (ds, ms, ys)"
  then obtain s1 r where r: "dropWhile ?P t = s1 # r"
    by (cases "dropWhile ?P t") (auto simp: split_slash_def)
  with a obtain s2 where r2: "dropWhile ?P r = s2 # ys" and ds: "ds = takeWhile ?P t"
    and ms: "ms = takeWhile ?P r"
    by (cases "dropWhile ?P r") (auto simp: split_slash_def)
  from dropWhile_Cons_hd [OF r] have t: "s1 = CHR ''/''" "t = takeWhile ?P t @ s1 # r"
    by blast+
  from dropWhile_Cons_hd [OF r2] have u: "s2 = CHR ''/''" "r = takeWhile ?P r @ s2 # ys"
    by blast+
  from t(2) have "t = ds @ CHR ''/'' # r" unfolding ds t(1) .
  moreover from u(2) have "r = ms @ CHR ''/'' # ys" unfolding ms u(1) .
  ultimately show ?thesis by metis
qed

lemma re_dmy_split:
  assumes "t = [] \<or> hd t \<noteq> CHR '' ''" and "(d, m, y, rest) \<in> set (re_dmy t)"
  shows "split_slash t = Some (d, m, y @ rest)"
proof -
  from assms set_re_dmy [OF assms(1), of d m y rest]
  have t: "t = d @ CHR ''/'' # m @ CHR ''/'' # y @ rest" and d: "day_text d" and m: "month_text m"
    by simp_all
  from d have "CHR ''/'' \<notin> set d" by (simp add: day_text_def digits_no_slash)
  moreover from m have "CHR ''/'' \<notin> set m" by (simp add: month_text_def digits_no_slash)
  ultimately show ?thesis unfolding t by (rule split_slash_decomp)
qed

lemma group_int_digits: "list_all is_digit g \<Longrightarrow> group_int g = int_of_digits g"
  by (simp add: group_int_def list_all_iff)

lemma days_in_month_le: "days_in_month y m \<le> 31"
  by (simp add: days_in_month_def)

lemma make_date_range:
  "make_date y m d = Some dt \<Longrightarrow> 1 \<le> d \<and> d \<le> 31 \<and> 1 \<le> m \<and> m \<le> 12"
  using days_in_month_le [of y m] by (auto simp: make_date_def valid_date_def split: if_splits)

lemma strptime_dmy_spec:
  assumes ns: "t = [] \<or> hd t \<noteq> CHR '' ''"
  shows "strptime_dmy t = dmy_spec t"
proof (cases "re_dmy t")
  case Nil
  show ?thesis
  proof (cases "dmy_spec t")
    case None
    with Nil show ?thesis by (simp add: strptime_dmy_def)
  next
    case (Some dt)
    then obtain ds ms ys where sp: "split_slash t = Some (ds, ms, ys)"
      and sh: "short_digits ds" "short_digits ms" "length ys = 4" "list_all is_digit ys"
      and md: "make_date (int_of_digits ys) (int_of_digits ms) (int_of_digits ds) = Some dt"
      by (auto simp: dmy_spec_def split: option.splits if_splits)
    from make_date_range [OF md] sh have "day_text ds" "month_text ms"
      by (simp_all add: day_text_def month_text_def short_digits_def)
    with split_slash_Some [OF sp] sh set_re_dmy [OF ns, of ds ms ys "[]"]
    have "(ds, ms, ys, []) \<in> set (re_dmy t)"
      by simp
    with Nil show ?thesis by simp
  qed
next
  case (Cons x xs)
  obtain d m y rest where x: "x = (d, m, y, rest)" by (cases x) auto
  with Cons have mem: "(d, m, y, rest) \<in> set (re_dmy t)" by simp
  from mem set_re_dmy [OF ns, of d m y rest]
  have t: "t = d @ CHR ''/'' # m @ CHR ''/'' # y @ rest" and d: "day_text d" and m: "month_text m"
    and y: "length y = 4" "list_all is_digit y"
    by simp_all
  note sp = re_dmy_split [OF ns mem]
  show ?thesis
  proof (cases "rest = []")
    case True
    from d m y have "short_digits d" "short_digits m" "list_all is_digit d" "list_all is_digit m"
      by (simp_all add: day_text_def month_text_def short_digits_def)
    with sp True y Cons x show ?thesis
      by (simp add: strptime_dmy_def dmy_spec_def group_int_digits)
  next
    case False
    with y have "length (y @ rest) \<noteq> 4" by simp
    with sp False Cons x show ?thesis
      by (simp add: strptime_dmy_def dmy_spec_def)
  qed
qed

lemma not_lower_upper: "\<not> is_lower (py_upper_char c)"
proof (cases "is_lower c")
  case True
  then have "(of_char c :: nat) - 32 < 97"
    unfolding is_lower_def Let_def by arith
  then have "(of_char (char_of ((of_char c :: nat) - 32) :: char) :: nat) < 97"
    by simp
  with True show ?thesis
    by (simp add: py_upper_char_def is_lower_def [of "char_of _"] Let_def)
next
  case False
  then show ?thesis by (simp add: py_upper_char_def)
qed

lemma month_lookup: "map_of month_map (py_upper k) = map_of spanish_months (py_upper k)"
proof -
  let ?low = "[(''ene'', ''01''), (''feb'', ''02''), (''mar'', ''03''), (''abr'', ''04''),
      (''may'', ''05''), (''jun'', ''06''), (''jul'', ''07''), (''ago'', ''08''),
      (''sep'', ''09''), (''oct'', ''10''), (''nov'', ''11''), (''dic'', ''12'')]"
  have mm: "month_map = spanish_months @ ?low"
    by (simp add: month_map_def spanish_months_def)
  have low: "\<And>key. key \<in> fst ` set ?low \<Longrightarrow> key \<noteq> [] \<and> is_lower (hd key)"
    by (auto simp: is_lower_def)
  have up: "py_upper k = [] \<or> \<not> is_lower (hd (py_upper k))"
    by (cases k) (simp_all add: py_upper_def not_lower_upper)
  from low up have "py_upper k \<notin> fst ` set ?low" by blast
  then have none: "map_of ?low (py_upper k) = None" by (rule map_of_eq_None_iff [THEN iffD2])
  have "map_of month_map (py_upper k)
          = (case map_of spanish_months (py_upper k) of
               None \<Rightarrow> map_of ?low (py_upper k) | Some v \<Rightarrow> Some v)"
    unfolding mm map_of_append map_add_def ..
  then show ?thesis
    unfolding none by (cases "map_of spanish_months (py_upper k)") simp_all
qed

lemma spanish_month_value:
  "map_of spanish_months k = Some mm \<Longrightarrow> \<exists>a b. mm = [a, b] \<and> is_digit a \<and> is_digit b"
proof -
  have all: "list_all (\<lambda>mm. \<exists>a b. mm = [a, b] \<and> is_digit a \<and> is_digit b)
               (map snd spanish_months)"
    by (simp add: spanish_months_def is_digit_def)
  assume "map_of spanish_months k = Some mm"
  then have "(k, mm) \<in> set spanish_months" by (rule map_of_SomeD)
  then have "mm \<in> set (map snd spanish_months)" by force
  with all show ?thesis unfolding list_all_iff by blast
qed

lemma dash_match:
  "(case match_dd_mmm_yyyy t of
      Some (dd, month_abbr, yyyy) \<Rightarrow>
        (case map_of month_map (py_upper month_abbr) of
           Some mm \<Rightarrow> if mm \<noteq> [] then Some (yyyy @ ''-'' @ mm @ ''-'' @ dd) else None
         | None \<Rightarrow> None)
    | None \<Rightarrow> None)
   = (case dash_spec t of
        Some (dd, mm, yyyy) \<Rightarrow> Some (yyyy @ ''-'' @ mm @ ''-'' @ dd)
      | None \<Rightarrow> None)"
proof (cases "11 \<le> length t")
  case False
  then have "match_dd_mmm_yyyy t = None"
    by (cases t rule: match_dd_mmm_yyyy.cases) simp_all
  with False show ?thesis by (simp add: dash_spec_def)
next
  case True
  then obtain d1 d2 h1 a b c h2 y1 y2 y3 y4 rest
    where t: "t = d1 # d2 # h1 # a # b # c # h2 # y1 # y2 # y3 # y4 # rest"
    by (cases t rule: match_dd_mmm_yyyy.cases) simp_all
  let ?C = "is_digit d1 \<and> is_digit d2 \<and> h1 = CHR ''-'' \<and> is_alpha a \<and> is_alpha b \<and> is_alpha c
         \<and> h2 = CHR ''-'' \<and> is_digit y1 \<and> is_digit y2 \<and> is_digit y3 \<and> is_digit y4"
  have m: "match_dd_mmm_yyyy t = (if ?C then Some ([d1, d2], [a, b, c], [y1, y2, y3, y4]) else None)"
    unfolding t by (rule match_dd_mmm_yyyy.simps(1))
  have tk: "take 2 t = [d1, d2]" "t ! 2 = h1" "take 3 (drop 3 t) = [a, b, c]" "t ! 6 = h2"
    "take 4 (drop 7 t) = [y1, y2, y3, y4]"
    by (simp_all add: t)
  have la: "list_all is_digit [d1, d2] \<longleftrightarrow> is_digit d1 \<and> is_digit d2"
    "list_all is_alpha [a, b, c] \<longleftrightarrow> is_alpha a \<and> is_alpha b \<and> is_alpha c"
    "list_all is_digit [y1, y2, y3, y4] \<longleftrightarrow> is_digit y1 \<and> is_digit y2 \<and> is_digit y3 \<and> is_digit y4"
    by simp_all
  have d: "dash_spec t =
             (if ?C then (case map_of spanish_months (py_upper [a, b, c]) of
                            Some mm \<Rightarrow> Some ([d1, d2], mm, [y1, y2, y3, y4])
                          | None \<Rightarrow> None)
              else None)"
    unfolding dash_spec_def tk la using True by (simp only: simp_thms conj_assoc)
  show ?thesis
  proof (cases ?C)
    case C: True
    from C have m': "match_dd_mmm_yyyy t = Some ([d1, d2], [a, b, c], [y1, y2, y3, y4])"
      unfolding m by (rule if_P)
    from C have d': "dash_spec t = (case map_of spanish_months (py_upper [a, b, c]) of
                            Some mm \<Rightarrow> Some ([d1, d2], mm, [y1, y2, y3, y4])
                          | None \<Rightarrow> None)"
      unfolding d by (rule if_P)
    show ?thesis
    proof (cases "map_of spanish_months (py_upper [a, b, c])")
      case None
      then show ?thesis by (simp add: m' d' month_lookup)
    next
      case (Some mm)
      with spanish_month_value [OF Some] show ?thesis
        by (auto simp add: m' d' month_lookup)
    qed
  next
    case False
    from False have m': "match_dd_mmm_yyyy t = None"
      unfolding m by (rule if_not_P)
    from False have d': "dash_spec t = None"
      unfolding d by (rule if_not_P)
    show ?thesis by (simp add: m' d')
  qed
qed

lemma py_strip_prefix:
  "dropWhile py_isspace s = py_strip s @ rev (takeWhile py_isspace (rev (dropWhile py_isspace s)))"
proof -
  let ?u = "dropWhile py_isspace s"
  have "py_strip s @ rev (takeWhile py_isspace (rev ?u))
          = rev (takeWhile py_isspace (rev ?u) @ dropWhile py_isspace (rev ?u))"
    by (simp only: py_strip_def rev_append)
  also have "\<dots> = rev (rev ?u)" by (simp only: takeWhile_dropWhile_id)
  also have "\<dots> = ?u" by (rule rev_rev_ident)
  finally show ?thesis by (rule sym)
qed

lemma py_strip_hd: "py_strip s = [] \<or> \<not> py_isspace (hd (py_strip s))"
proof (cases "py_strip s = []")
  case True
  then show ?thesis by simp
next
  case False
  let ?u = "dropWhile py_isspace s"
  from False py_strip_prefix [of s] have hd: "hd ?u = hd (py_strip s)" and ne: "?u \<noteq> []"
    by (metis hd_append2, metis append_is_Nil_conv)
  from ne have "\<not> py_isspace (hd ?u)" by (rule hd_dropWhile)
  with hd show ?thesis by simp
qed

lemma py_strip_no_blank: "py_strip s = [] \<or> hd (py_strip s) \<noteq> CHR '' ''"
proof -
  have "py_isspace CHR '' ''" by (simp add: py_isspace_def)
  with py_strip_hd [of s] show ?thesis by metis
qed

lemma dmy_spec_Nil: "dmy_spec [] = None"
  by (simp add: dmy_spec_def split_slash_def)

lemma dash_spec_Nil: "dash_spec [] = None"
  by (simp add: dash_spec_def)

lemma py_strip_Nil: "py_strip [] = []"
  by (simp add: py_strip_def)

lemma convert_refines_spec: "convert_date_format s = normalizer_spec s"
proof (cases "s = []")
  case True
  then show ?thesis
    by (simp add: convert_date_format_def normalizer_spec_def py_strip_Nil dmy_spec_Nil dash_spec_Nil)
next
  case False
  let ?t = "py_strip s"
  note sp = strptime_dmy_spec [OF py_strip_no_blank [of s]]
  show ?thesis
  proof (cases "dmy_spec ?t")
    case None
    with False sp dash_match [of ?t] show ?thesis
      by (simp add: convert_date_format_def normalizer_spec_def)
  next
    case (Some dt)
    with False sp show ?thesis
      by (simp add: convert_date_format_def normalizer_spec_def strftime_ymd_def)
  qed
qed

lemma is_digit_digit_char: "n < 10 \<Longrightarrow> is_digit (digit_char n)"
  by (simp add: is_digit_def digit_char_def)

lemma digit_val_digit_char: "n < 10 \<Longrightarrow> digit_val (digit_char n) = n"
  by (simp add: digit_val_def digit_char_def)

lemma pad2_digits: "list_all is_digit (pad2 n)"
  by (simp add: pad2_def is_digit_digit_char)

lemma pad4_digits: "list_all is_digit (pad4 n)"
  by (simp add: pad4_def is_digit_digit_char)

lemma int_of_digits_pad2: "n < 100 \<Longrightarrow> int_of_digits (pad2 n) = n"
  by (simp add: pad2_def int_of_digits_2 digit_val_digit_char)

lemma int_of_digits_pad4: "n < 10000 \<Longrightarrow> int_of_digits (pad4 n) = n"
proof -
  assume n: "n < 10000"
  have d1: "n = 10 * (n div 10) + n mod 10" by simp
  have "n div 10 div 10 = n div 100" by (simp add: div_mult2_eq [symmetric])
  then have d2: "n div 10 = 10 * (n div 100) + n div 10 mod 10"
    by (metis mult_div_mod_eq)
  have "n div 100 div 10 = n div 1000" by (simp add: div_mult2_eq [symmetric])
  then have d3: "n div 100 = 10 * (n div 1000) + n div 100 mod 10"
    by (metis mult_div_mod_eq)
  from n have d4: "n div 1000 mod 10 = n div 1000" by simp
  have "1000 * (n div 1000) + 100 * (n div 100 mod 10) + 10 * (n div 10 mod 10) + n mod 10 = n"
    using d1 d2 d3 by linarith
  moreover from n have "n div 1000 < 10" by simp
  ultimately show ?thesis
    by (simp add: pad4_def int_of_digits_4 digit_val_digit_char d4)
qed

lemma ymd_shape_pads: "ymd_shape (pad4 y @ ''-'' @ pad2 m @ ''-'' @ pad2 d)"
  by (simp add: pad4_def pad2_def is_digit_digit_char)

lemma digit_not_space: "is_digit c \<Longrightarrow> \<not> py_isspace c"
  by (simp add: is_digit_def py_isspace_def Let_def)

lemma py_strip_id:
  "s \<noteq> [] \<Longrightarrow> \<not> py_isspace (hd s) \<Longrightarrow> \<not> py_isspace (last s) \<Longrightarrow> py_strip s = s"
proof -
  assume ne: "s \<noteq> []" and h: "\<not> py_isspace (hd s)" and l: "\<not> py_isspace (last s)"
  from ne h have a: "dropWhile py_isspace s = s" by (cases s) simp_all
  from ne l have "dropWhile py_isspace (rev s) = rev s"
    by (cases "rev s") (simp_all add: last_rev [symmetric] hd_rev)
  with a show ?thesis by (simp add: py_strip_def)
qed

lemma py_decimal_pad4: "1000 \<le> y \<Longrightarrow> y < 10000 \<Longrightarrow> py_decimal y = pad4 y"
proof -
  assume lo: "1000 \<le> y" and hi: "y < 10000"
  have d2: "y div 10 div 10 = y div 100" by (simp add: div_mult2_eq [symmetric])
  have d3: "y div 100 div 10 = y div 1000" by (simp add: div_mult2_eq [symmetric])
  from lo have g1: "\<not> y < 10" and g2: "\<not> y div 10 < 10" and g3: "\<not> y div 100 < 10"
    by simp_all
  from hi have g4: "y div 1000 < 10" by simp
  have s1: "py_decimal y = py_decimal (y div 10) @ [digit_char (y mod 10)]"
    using g1 by (subst py_decimal.simps) simp
  have s2: "py_decimal (y div 10) = py_decimal (y div 100) @ [digit_char (y div 10 mod 10)]"
    using g2 by (subst py_decimal.simps) (simp add: d2)
  have s3: "py_decimal (y div 100) = py_decimal (y div 1000) @ [digit_char (y div 100 mod 10)]"
    using g3 by (subst py_decimal.simps) (simp add: d3)
  have s4: "py_decimal (y div 1000) = [digit_char (y div 1000)]"
    using g4 by (subst py_decimal.simps) simp
  from g4 have m: "y div 1000 mod 10 = y div 1000" by simp
  show ?thesis unfolding s1 s2 s3 s4 pad4_def m by simp
qed

lemma py_decimal_not_Nil: "py_decimal n \<noteq> []"
  by (subst py_decimal.simps) simp

lemma valid_date_bounds: "valid_date y m d \<Longrightarrow> d < 100 \<and> m < 100 \<and> y < 10000"
  using days_in_month_le [of y m] by (simp add: valid_date_def)

lemma normalize_valid_slash:
  assumes v: "valid_date y m d"
  shows "normalizer_spec (pad2 d @ ''/'' @ pad2 m @ ''/'' @ pad4 y)
           = Some (py_decimal y @ ''-'' @ pad2 m @ ''-'' @ pad2 d)"
proof -
  let ?s = "pad2 d @ CHR ''/'' # pad2 m @ CHR ''/'' # pad4 y"
  have ne: "?s \<noteq> []" by (simp add: pad2_def)
  have h: "\<not> py_isspace (hd ?s)"
    by (rule digit_not_space) (simp add: pad2_def is_digit_digit_char)
  have l: "\<not> py_isspace (last ?s)"
    by (rule digit_not_space) (simp add: pad4_def is_digit_digit_char)
  have strip: "py_strip ?s = ?s" using ne h l by (rule py_strip_id)
  have sp: "split_slash ?s = Some (pad2 d, pad2 m, pad4 y)"
    by (rule split_slash_decomp) (simp_all add: digits_no_slash pad2_digits)
  have sh: "short_digits (pad2 d)" "short_digits (pad2 m)" "length (pad4 y) = 4"
    by (simp_all add: short_digits_def pad2_digits) (simp_all add: pad2_def pad4_def)
  from valid_date_bounds [OF v]
  have iv: "int_of_digits (pad2 d) = d" "int_of_digits (pad2 m) = m" "int_of_digits (pad4 y) = y"
    by (simp_all add: int_of_digits_pad2 int_of_digits_pad4)
  have "dmy_spec ?s = Some \<lparr>year = y, month = m, day = d\<rparr>"
    unfolding dmy_spec_def sp using sh v by (simp add: pad4_digits iv make_date_def)
  then show ?thesis by (simp add: normalizer_spec_def strip)
qed

lemma alpha_not_slash: "is_alpha c \<Longrightarrow> c \<noteq> CHR ''/''"
  by (auto simp: is_alpha_def is_upper_def is_lower_def)

lemma digit_not_slash: "is_digit c \<Longrightarrow> c \<noteq> CHR ''/''"
  using const_digit(5) by auto

lemma normalize_dash:
  assumes dg: "is_digit d1" "is_digit d2" "is_digit y1" "is_digit y2" "is_digit y3" "is_digit y4"
    and al: "is_alpha a" "is_alpha b" "is_alpha c"
    and mo: "map_of spanish_months (py_upper [a, b, c]) = Some mm"
  shows "normalizer_spec [d1, d2, CHR ''-'', a, b, c, CHR ''-'', y1, y2, y3, y4]
           = Some ([y1, y2, y3, y4] @ ''-'' @ mm @ ''-'' @ [d1, d2])"
proof -
  let ?s = "[d1, d2, CHR ''-'', a, b, c, CHR ''-'', y1, y2, y3, y4]"
  have strip: "py_strip ?s = ?s"
    by (rule py_strip_id) (simp_all add: digit_not_space dg)
  have "dropWhile (\<lambda>c. c \<noteq> CHR ''/'') ?s = []"
    using dg al by (simp add: digit_not_slash alpha_not_slash)
  then have sp: "split_slash ?s = None" by (simp add: split_slash_def)
  have ds: "dash_spec ?s = Some ([d1, d2], mm, [y1, y2, y3, y4])"
    using dg al mo by (simp add: dash_spec_def)
  show ?thesis by (simp add: normalizer_spec_def strip dmy_spec_def sp ds)
qed

lemma length_2: "length y = 2 \<longleftrightarrow> (\<exists>a b. y = [a, b])"
  by (auto simp: eval_nat_numeral length_Suc_conv)

lemma dash_spec_shape:
  assumes "dash_spec t = Some (dd, mm, yyyy)"
  shows "ymd_shape (yyyy @ ''-'' @ mm @ ''-'' @ dd)"
proof -
  from assms have c: "11 \<le> length t" "list_all is_digit (take 2 t)"
      "list_all is_digit (take 4 (drop 7 t))"
    and r: "dd = take 2 t" "yyyy = take 4 (drop 7 t)"
    and m: "map_of spanish_months (py_upper (take 3 (drop 3 t))) = Some mm"
    by (auto simp: dash_spec_def split: if_splits option.splits)
  from c(1) r have "length dd = 2" "length yyyy = 4" by simp_all
  then obtain d1 d2 y1 y2 y3 y4 where e: "dd = [d1, d2]" "yyyy = [y1, y2, y3, y4]"
    using length_2 [of dd] length_4 [of yyyy] by blast
  from spanish_month_value [OF m] obtain m1 m2 where
    mm: "mm = [m1, m2]" "is_digit m1" "is_digit m2" by blast
  have "list_all is_digit dd" unfolding r by (rule c(2))
  moreover have "list_all is_digit yyyy" unfolding r by (rule c(3))
  ultimately have "is_digit d1" "is_digit d2" "is_digit y1" "is_digit y2" "is_digit y3" "is_digit y4"
    unfolding e by simp_all
  with mm show ?thesis by (simp add: e)
qed

lemma dmy_spec_year: "dmy_spec t = Some dt \<Longrightarrow> year dt < 10000"
  by (auto simp: dmy_spec_def make_date_def valid_date_def split: option.splits if_splits)

lemma convert_shape:
  "convert_date_format s = Some r \<Longrightarrow>
     ymd_shape r
     \<or> (\<exists>dt. dmy_spec (py_strip s) = Some dt \<and> year dt < 1000
              \<and> r = py_decimal (year dt) @ ''-'' @ pad2 (month dt) @ ''-'' @ pad2 (day dt))"
proof -
  assume "convert_date_format s = Some r"
  then have n: "normalizer_spec s = Some r" by (simp add: convert_refines_spec)
  show ?thesis
  proof (cases "dmy_spec (py_strip s)")
    case (Some dt)
    with n have r: "r = py_decimal (year dt) @ ''-'' @ pad2 (month dt) @ ''-'' @ pad2 (day dt)"
      by (simp add: normalizer_spec_def)
    show ?thesis
    proof (cases "year dt < 1000")
      case True
      with Some r show ?thesis by blast
    next
      case False
      with dmy_spec_year [OF Some] have "py_decimal (year dt) = pad4 (year dt)"
        by (intro py_decimal_pad4) simp_all
      with r have "ymd_shape r" by (simp only: ymd_shape_pads)
      then show ?thesis ..
    qed
  next
    case None
    with n obtain dd mm yyyy where "dash_spec (py_strip s) = Some (dd, mm, yyyy)"
      and "r = yyyy @ ''-'' @ mm @ ''-'' @ dd"
      by (auto simp: normalizer_spec_def split: option.splits)
    then have "ymd_shape r" by (simp only: dash_spec_shape)
    then show ?thesis ..
  qed
qed

lemma ymd_shape_not_Nil: "ymd_shape r \<Longrightarrow> r \<noteq> []"
  by auto

lemma convert_not_Nil: "convert_date_format s = Some r \<Longrightarrow> r \<noteq> []"
  using convert_shape [of s r] ymd_shape_not_Nil [of r] py_decimal_not_Nil by auto

text \<open>
  Claim C2, amended, for texts of 8-bit characters. The normalizer computes exactly the
  specified function: a result for the texts that, stripped of surrounding whitespace,
  are slash dates or begin as dash dates, and \<open>None\<close> for every other text. Every
  result is a well-formed \<open>YYYY-MM-DD\<close> text, except that a slash date with a year
  below 1000 gives its year without leading zeros. Every date of the calendar written
  \<open>DD/MM/YYYY\<close> gives year, month and day, well-formed from the year 1000 on, and every
  \<open>DD-MMM-YYYY\<close> text with a Spanish month abbreviation in any letter case gives year,
  month number and day from its own digits.
\<close>

theorem date_normalizer_amended:
  "convert_date_format s = normalizer_spec s
   \<and> (\<forall>r. convert_date_format s = Some r \<longrightarrow>
          ymd_shape r
          \<or> (\<exists>dt. dmy_spec (py_strip s) = Some dt \<and> year dt < 1000
                   \<and> r = py_decimal (year dt) @ ''-'' @ pad2 (month dt) @ ''-'' @ pad2 (day dt)))
   \<and> (valid_date y m d \<longrightarrow>
        convert_date_format (pad2 d @ ''/'' @ pad2 m @ ''/'' @ pad4 y)
          = Some ((if 1000 \<le> y then pad4 y else py_decimal y) @ ''-'' @ pad2 m @ ''-'' @ pad2 d))
   \<and> (is_digit d1 \<and> is_digit d2 \<and> is_alpha a \<and> is_alpha b \<and> is_alpha c
        \<and> is_digit y1 \<and> is_digit y2 \<and> is_digit y3 \<and> is_digit y4
        \<and> map_of spanish_months (py_upper [a, b, c]) = Some mm \<longrightarrow>
        convert_date_format [d1, d2, CHR ''-'', a, b, c, CHR ''-'', y1, y2, y3, y4]
          = Some ([y1, y2, y3, y4] @ ''-'' @ mm @ ''-'' @ [d1, d2]))"
proof (intro conjI allI impI)
  show "convert_date_format s = normalizer_spec s" by (rule convert_refines_spec)
next
  fix r assume "convert_date_format s = Some r"
  then show "ymd_shape r
          \<or> (\<exists>dt. dmy_spec (py_strip s) = Some dt \<and> year dt < 1000
                   \<and> r = py_decimal (year dt) @ ''-'' @ pad2 (month dt) @ ''-'' @ pad2 (day dt))"
    by (rule convert_shape)
next
  assume v: "valid_date y m d"
  have "(if 1000 \<le> y then pad4 y else py_decimal y) = py_decimal y"
    using valid_date_bounds [OF v] by (simp add: py_decimal_pad4)
  then show "convert_date_format (pad2 d @ ''/'' @ pad2 m @ ''/'' @ pad4 y)
          = Some ((if 1000 \<le> y then pad4 y else py_decimal y) @ ''-'' @ pad2 m @ ''-'' @ pad2 d)"
    unfolding convert_refines_spec using normalize_valid_slash [OF v] by simp
next
  assume "is_digit d1 \<and> is_digit d2 \<and> is_alpha a \<and> is_alpha b \<and> is_alpha c
        \<and> is_digit y1 \<and> is_digit y2 \<and> is_digit y3 \<and> is_digit y4
        \<and> map_of spanish_months (py_upper [a, b, c]) = Some mm"
  then show "convert_date_format [d1, d2, CHR ''-'', a, b, c, CHR ''-'', y1, y2, y3, y4]
          = Some ([y1, y2, y3, y4] @ ''-'' @ mm @ ''-'' @ [d1, d2])"
    unfolding convert_refines_spec by (intro normalize_dash) simp_all
qed

theorem date_normalizer_amended_witness:
  "convert_date_format ''06/10/2025'' = Some ''2025-10-06''
   \<and> convert_date_format ''06-oct-2025'' = Some ''2025-10-06''
   \<and> (ymd_shape ''2025-10-06''
       \<or> (\<exists>dt. dmy_spec (py_strip ''06/10/2025'') = Some dt \<and> year dt < 1000
                \<and> ''2025-10-06''
                    = py_decimal (year dt) @ ''-'' @ pad2 (month dt) @ ''-'' @ pad2 (day dt)))"
proof -
  have v: "valid_date 2025 10 6" by code_simp
  have i: "pad2 6 @ ''/'' @ pad2 10 @ ''/'' @ pad4 2025 = ''06/10/2025''" by code_simp
  have o: "(if 1000 \<le> (2025::nat) then pad4 2025 else py_decimal 2025) @ ''-'' @ pad2 10 @ ''-'' @ pad2 6
             = ''2025-10-06''"
    by code_simp
  note t = date_normalizer_amended
             [of "''06/10/2025''" 2025 10 6 "CHR ''0''" "CHR ''6''" "CHR ''o''" "CHR ''c''" "CHR ''t''"
                 "CHR ''2''" "CHR ''0''" "CHR ''2''" "CHR ''5''" "''10''"]
  from t [THEN conjunct2, THEN conjunct2, THEN conjunct1, THEN mp, OF v]
  have a: "convert_date_format ''06/10/2025'' = Some ''2025-10-06''"
    unfolding i o .
  have h: "is_digit CHR ''0'' \<and> is_digit CHR ''6'' \<and> is_alpha CHR ''o'' \<and> is_alpha CHR ''c''
        \<and> is_alpha CHR ''t'' \<and> is_digit CHR ''2'' \<and> is_digit CHR ''0'' \<and> is_digit CHR ''2''
        \<and> is_digit CHR ''5''
        \<and> map_of spanish_months (py_upper [CHR ''o'', CHR ''c'', CHR ''t'']) = Some ''10''"
    by code_simp
  from t [THEN conjunct2, THEN conjunct2, THEN conjunct2, THEN mp, OF h]
  have b: "convert_date_format ''06-oct-2025'' = Some ''2025-10-06''"
    by simp
  note c = t [THEN conjunct2, THEN conjunct1, THEN spec, THEN mp, OF a]
  from a b c show ?thesis by (intro conjI)
qed

text \<open>
  Claim C2 as stated fails: a text that is not a date (day 99), and a date followed by
  other text, are not mapped to \<open>None\<close>, and a valid date of the year 999 is not
  mapped to a well-formed text.
\<close>

theorem date_normalizer_counterexample:
  "convert_date_format ''99-ENE-2024'' = Some ''2024-01-99''
   \<and> \<not> valid_date 2024 1 99
   \<and> convert_date_format ''31-DIC-2024 (rectificada)'' = Some ''2024-12-31''
   \<and> valid_date 999 1 1
   \<and> convert_date_format ''01/01/0999'' = Some ''999-01-01''
   \<and> \<not> ymd_shape ''999-01-01''"
  by code_simp

lemma converted_truthy:
  "truthy (convert_date_format s) \<longleftrightarrow> convert_date_format s \<noteq> None"
proof (cases "convert_date_format s")
  case None
  then show ?thesis by (simp add: truthy_def)
next
  case (Some r)
  from convert_not_Nil [OF Some] Some show ?thesis
    by (simp add: truthy_def)
qed

lemma stored_date:
  "(if truthy (convert_date_format s) then the (convert_date_format s) else dflt)
     = (case convert_date_format s of None \<Rightarrow> dflt | Some c \<Rightarrow> c)"
  unfolding converted_truthy by (cases "convert_date_format s") simp_all

lemma fecha_boletin_source:
  "data_fecha_boletin pg = []
   \<or> (\<exists>p s. p_boletin pg = Some p
          \<and> (fecha_link p = Some s \<or> search_fecha (boletin_text p) = Some s)
          \<and> convert_date_format s = Some (data_fecha_boletin pg))"
proof (cases "h1_tag pg")
  case None
  then show ?thesis by (simp add: data_fecha_boletin_def)
next
  case h1: (Some h1)
  show ?thesis
  proof (cases "p_boletin pg")
    case None
    with h1 show ?thesis by (simp add: data_fecha_boletin_def)
  next
    case p: (Some p)
    define fl where "fl = (case fecha_link p of None \<Rightarrow> []
                      | Some fecha_text \<Rightarrow>
                          (case convert_date_format fecha_text of None \<Rightarrow> [] | Some c \<Rightarrow> c))"
    define ft where "ft = (case search_fecha (boletin_text p) of None \<Rightarrow> fl
                      | Some g \<Rightarrow>
                          (case convert_date_format g of None \<Rightarrow> fl | Some c \<Rightarrow> c))"
    have v: "data_fecha_boletin pg = (if fl = [] then ft else fl)"
      unfolding data_fecha_boletin_def Let_def stored_date fl_def ft_def by (simp add: h1 p)
    have fl_src: "fl \<noteq> [] \<Longrightarrow> \<exists>s. fecha_link p = Some s \<and> convert_date_format s = Some fl"
      unfolding fl_def by (auto split: option.splits)
    have ft_src: "fl = [] \<Longrightarrow> ft \<noteq> [] \<Longrightarrow>
                    \<exists>s. search_fecha (boletin_text p) = Some s \<and> convert_date_format s = Some ft"
      unfolding ft_def by (auto split: option.splits)
    show ?thesis
    proof (cases "fl = []")
      case False
      then have d: "data_fecha_boletin pg = fl" unfolding v by simp
      from fl_src [OF False] obtain s where "fecha_link p = Some s"
        and "convert_date_format s = Some fl" by blast
      then show ?thesis unfolding d using p by blast
    next
      case True
      then have d: "data_fecha_boletin pg = ft" unfolding v by simp
      show ?thesis
      proof (cases "ft = []")
        case e: True
        then show ?thesis unfolding d by simp
      next
        case False
        from ft_src [OF True False] obtain s where "search_fecha (boletin_text p) = Some s"
          and "convert_date_format s = Some ft" by blast
        then show ?thesis unfolding d using p by blast
      qed
    qed
  qed
qed

text \<open>
  Claim C9, amended. \<open>fecha_boletin\<close> is the empty default or what the date normalizer
  returns for the text of the date link or for the first \<open>DD-MMM-YYYY\<close> match in the
  paragraph; it is never text of the page as found. \<open>fecha_sancion\<close> is the empty default
  when the page has no date element, what the normalizer returns when it accepts the
  element's text, and the element's text as it is when the normalizer rejects it. What
  the normalizer returns is a well-formed \<open>YYYY-MM-DD\<close> text, except for a slash date
  with a year below 1000, whose year has no leading zeros.
\<close>

theorem fecha_fields_amended:
  "(data_fecha_boletin pg = []
    \<or> (\<exists>p s. p_boletin pg = Some p
           \<and> (fecha_link p = Some s \<or> search_fecha (boletin_text p) = Some s)
           \<and> convert_date_format s = Some (data_fecha_boletin pg)))
   \<and> data_fecha_sancion pg
       = (case fecha_tag pg of
            None \<Rightarrow> []
          | Some fecha_text \<Rightarrow>
              (case convert_date_format fecha_text of None \<Rightarrow> fecha_text | Some c \<Rightarrow> c))
   \<and> (\<forall>s r. convert_date_format s = Some r \<longrightarrow>
          ymd_shape r
          \<or> (\<exists>dt. dmy_spec (py_strip s) = Some dt \<and> year dt < 1000
                   \<and> r = py_decimal (year dt) @ ''-'' @ pad2 (month dt) @ ''-'' @ pad2 (day dt)))"
proof (intro conjI allI impI)
  show "data_fecha_boletin pg = []
    \<or> (\<exists>p s. p_boletin pg = Some p
           \<and> (fecha_link p = Some s \<or> search_fecha (boletin_text p) = Some s)
           \<and> convert_date_format s = Some (data_fecha_boletin pg))"
    by (rule fecha_boletin_source)
next
  show "data_fecha_sancion pg
       = (case fecha_tag pg of
            None \<Rightarrow> []
          | Some fecha_text \<Rightarrow>
              (case convert_date_format fecha_text of None \<Rightarrow> fecha_text | Some c \<Rightarrow> c))"
    unfolding data_fecha_sancion_def Let_def stored_date ..
next
  fix s r
  assume "convert_date_format s = Some r"
  then show "ymd_shape r
          \<or> (\<exists>dt. dmy_spec (py_strip s) = Some dt \<and> year dt < 1000
                   \<and> r = py_decimal (year dt) @ ''-'' @ pad2 (month dt) @ ''-'' @ pad2 (day dt))"
    by (rule convert_shape)
qed

theorem fecha_fields_amended_witness:
  "ymd_shape ''2025-10-06''
   \<or> (\<exists>dt. dmy_spec (py_strip ''06-oct-2025'') = Some dt \<and> year dt < 1000
            \<and> ''2025-10-06''
                = py_decimal (year dt) @ ''-'' @ pad2 (month dt) @ ''-'' @ pad2 (day dt))"
proof -
  have h: "convert_date_format ''06-oct-2025'' = Some ''2025-10-06''" by code_simp
  from fecha_fields_amended [THEN conjunct2, THEN conjunct2, THEN spec, THEN spec, THEN mp, OF h]
  show ?thesis .
qed

text \<open>
  Claim C9 as stated fails: a sanction date written with an abbreviation that is not in
  the table is stored as found on the page.
\<close>

theorem fecha_sancion_counterexample:
  "data_fecha_sancion \<lparr>fecha_tag = Some ''05-SET-2024'', h1_tag = None, p_boletin = None\<rparr>
     = ''05-SET-2024''
   \<and> convert_date_format ''05-SET-2024'' = None
   \<and> \<not> ymd_shape ''05-SET-2024''"
  by code_simp

end
